theory Spec2Isabelle
  imports Main "HOL-Library.Sublist"
begin

section \<open>Python strings\<close>

text \<open>
  A Python \<open>str\<close> is modelled as a \<open>string\<close>; one \<open>char\<close> stands for one code
  point, so the model covers texts whose code points are below 256.  The predicates
  below are Python's own classification of those code points.
\<close>

definition NL :: char where
  "NL = CHR 0x0A"

text \<open>\<open>str.isspace\<close> on one character; also the class \<open>\s\<close> of \<open>re\<close>.\<close>

definition is_space :: "char \<Rightarrow> bool" where
  "is_space c = (of_char c \<in> set [9, 10, 11, 12, 13, 28, 29, 30, 31, 32, 133, 160 :: nat])"

text \<open>The class \<open>\d\<close> of \<open>re\<close>: the decimal digits.\<close>

definition is_digit :: "char \<Rightarrow> bool" where
  "is_digit c = (48 \<le> (of_char c :: nat) \<and> (of_char c :: nat) \<le> 57)"

text \<open>\<open>str.strip()\<close> with no argument.\<close>

definition lstrip :: "string \<Rightarrow> string" where
  "lstrip s = dropWhile is_space s"

definition rstrip :: "string \<Rightarrow> string" where
  "rstrip s = rev (dropWhile is_space (rev s))"

definition strip :: "string \<Rightarrow> string" where
  "strip s = rstrip (lstrip s)"

text \<open>\<open>str.startswith\<close> and the operator \<open>in\<close> on strings.\<close>

definition startswith :: "string \<Rightarrow> string \<Rightarrow> bool" where
  "startswith s p = prefix p s"

fun contains :: "string \<Rightarrow> string \<Rightarrow> bool" where
  "contains sub [] = (sub = [])"
| "contains sub (c # cs) = (prefix sub (c # cs) \<or> contains sub cs)"

text \<open>\<open>str.split(sep)\<close> for a separator of one character: never an empty list.\<close>

fun split_on :: "char \<Rightarrow> string \<Rightarrow> string list" where
  "split_on sep [] = [[]]"
| "split_on sep (c # cs) =
     (if c = sep then [] # split_on sep cs
      else (case split_on sep cs of
              [] \<Rightarrow> [[c]]
            | w # ws \<Rightarrow> (c # w) # ws))"

text \<open>\<open>str.lower()\<close> on one character and on a string.\<close>

definition lower_char :: "char \<Rightarrow> char" where
  "lower_char c =
     (let n = (of_char c :: nat)
      in if (65 \<le> n \<and> n \<le> 90) \<or> (192 \<le> n \<and> n \<le> 222 \<and> n \<noteq> 215)
         then char_of (n + 32) else c)"

definition lower :: "string \<Rightarrow> string" where
  "lower s = map lower_char s"

text \<open>The apostrophe, for the messages that quote a name.\<close>

definition SQ :: char where
  "SQ = CHR 0x27"

text \<open>\<open>str(n)\<close> for a number, and the value of a string of decimal digits.\<close>

definition digit_char :: "nat \<Rightarrow> char" where
  "digit_char d = char_of (48 + d)"

fun str_nat :: "nat \<Rightarrow> string" where
  "str_nat n = (if n < 10 then [digit_char n] else str_nat (n div 10) @ [digit_char (n mod 10)])"

declare str_nat.simps [simp del]

definition int_of_digits :: "string \<Rightarrow> nat" where
  "int_of_digits s = foldl (\<lambda>acc c. 10 * acc + ((of_char c :: nat) - 48)) 0 s"

text \<open>
  An exception is a value that carries the text \<open>str(e)\<close>.  A function that can
  raise returns a sum whose left side is the exception.
\<close>

datatype exn = Raised string

text \<open>
  \<open>int(s)\<close> on a string of decimal digits.  CPython limits the conversion to
  4300 digits (\<open>sys.int_info.default_max_str_digits\<close>) and raises
  \<open>ValueError\<close> above it; \<open>digits_limit_error\<close> is that exception for a string of
  \<open>n\<close> digits.
\<close>

definition INT_MAX_STR_DIGITS :: nat where
  "INT_MAX_STR_DIGITS = 4300"

definition digits_limit_error :: "nat \<Rightarrow> exn" where
  "digits_limit_error n =
     Raised (''Exceeds the limit (4300 digits) for integer string conversion: value has ''
             @ str_nat n
             @ '' digits; use sys.set_int_max_str_digits() to increase the limit'')"

definition py_int :: "string \<Rightarrow> exn + int" where
  "py_int s =
     (if length s > INT_MAX_STR_DIGITS then Inl (digits_limit_error (length s))
      else Inr (int (int_of_digits s)))"

text \<open>
  \<open>sys.exit(main())\<close>: the exit code of the process is the value \<open>main\<close>
  returns, and 1 when an exception leaves \<open>main\<close>.
\<close>

definition process_exit :: "exn + int \<Rightarrow> int" where
  "process_exit r = (case r of Inl e \<Rightarrow> 1 | Inr code \<Rightarrow> code)"

section \<open>Regular expressions of \<open>re\<close>\<close>

text \<open>
  The patterns of the three scripts use literals, repetitions of one character class
  (greedy or lazy), groups, anchors, alternation and one lookahead.  A pattern is a
  value of \<open>rx\<close>; the matcher is the backtracking matcher of \<open>re\<close>: it returns every
  way to match at the current position, in the order in which \<open>re\<close> tries them, so the
  match \<open>re\<close> reports is the head of the list.
\<close>

datatype cls =
    CAny                \<comment> \<open>\<open>.\<close> under \<open>re.DOTALL\<close>\<close>
  | CDot                \<comment> \<open>\<open>.\<close> otherwise: anything but a newline\<close>
  | CSpace              \<comment> \<open>\<open>\s\<close>\<close>
  | CDigit              \<comment> \<open>\<open>\d\<close>\<close>
  | CIn "char list"     \<comment> \<open>\<open>[abc]\<close>, a single character\<close>
  | CNotIn "char list"  \<comment> \<open>\<open>[^abc]\<close>\<close>

fun cmem :: "cls \<Rightarrow> char \<Rightarrow> bool" where
  "cmem CAny c = True"
| "cmem CDot c = (c \<noteq> NL)"
| "cmem CSpace c = is_space c"
| "cmem CDigit c = is_digit c"
| "cmem (CIn cs) c = (c \<in> set cs)"
| "cmem (CNotIn cs) c = (c \<notin> set cs)"

datatype rx =
    Lit string                      \<comment> \<open>literal text\<close>
  | Rep cls nat "nat option" bool   \<comment> \<open>class repeated \<open>lo\<close> to \<open>hi\<close> times; \<open>True\<close> is greedy\<close>
  | Cat rx rx
  | Alt rx rx
  | Grp nat rx                      \<comment> \<open>capturing group with its number\<close>
  | Bol                             \<comment> \<open>\<open>^\<close>\<close>
  | BolM                            \<comment> \<open>\<open>^\<close> under \<open>re.MULTILINE\<close>\<close>
  | Eol                             \<comment> \<open>\<open>$\<close>\<close>
  | EolM                            \<comment> \<open>\<open>$\<close> under \<open>re.MULTILINE\<close>\<close>
  | Ahead rx                        \<comment> \<open>\<open>(?=...)\<close>\<close>

text \<open>
  A position in the subject is the character before it (if any) and the text from it
  on; the captures are an association list, the latest binding first.
\<close>

type_synonym caps = "(nat \<times> string) list"
type_synonym mpos = "char option \<times> string \<times> caps"

definition advance :: "char option \<Rightarrow> string \<Rightarrow> nat \<Rightarrow> char option" where
  "advance prev s k = (if k = 0 then prev else Some (s ! (k - 1)))"

definition rep_counts :: "cls \<Rightarrow> nat \<Rightarrow> nat option \<Rightarrow> bool \<Rightarrow> string \<Rightarrow> nat list" where
  "rep_counts C lo hi greedy s =
     (let n = length (takeWhile (cmem C) s);
          m = (case hi of None \<Rightarrow> n | Some h \<Rightarrow> min h n);
          ks = [lo ..< Suc m]
      in if greedy then rev ks else ks)"

primrec rmatch :: "rx \<Rightarrow> char option \<Rightarrow> string \<Rightarrow> caps \<Rightarrow> mpos list" where
  "rmatch (Lit l) prev s cp =
     (if prefix l s then [(advance prev s (length l), drop (length l) s, cp)] else [])"
| "rmatch (Rep C lo hi greedy) prev s cp =
     map (\<lambda>k. (advance prev s k, drop k s, cp)) (rep_counts C lo hi greedy s)"
| "rmatch (Cat a b) prev s cp =
     concat (map (\<lambda>(p, t, c). rmatch b p t c) (rmatch a prev s cp))"
| "rmatch (Alt a b) prev s cp = rmatch a prev s cp @ rmatch b prev s cp"
| "rmatch (Grp i a) prev s cp =
     map (\<lambda>(p, t, c). (p, t, (i, take (length s - length t) s) # c)) (rmatch a prev s cp)"
| "rmatch Bol prev s cp = (if prev = None then [(prev, s, cp)] else [])"
| "rmatch BolM prev s cp = (if prev = None \<or> prev = Some NL then [(prev, s, cp)] else [])"
| "rmatch Eol prev s cp = (if s = [] \<or> s = [NL] then [(prev, s, cp)] else [])"
| "rmatch EolM prev s cp = (if s = [] \<or> hd s = NL then [(prev, s, cp)] else [])"
| "rmatch (Ahead a) prev s cp = (if rmatch a prev s cp = [] then [] else [(prev, s, cp)])"

text \<open>
  A match object: the text after the match, the character before that text, the
  matched text and the groups.
\<close>

record rmatched =
  m_rest :: string
  m_prev :: "char option"
  m_text :: string
  m_caps :: caps

definition match_at :: "rx \<Rightarrow> char option \<Rightarrow> string \<Rightarrow> rmatched option" where
  "match_at r prev s =
     (case rmatch r prev s [] of
        [] \<Rightarrow> None
      | (p, t, c) # _ \<Rightarrow>
          Some \<lparr>m_rest = t, m_prev = p, m_text = take (length s - length t) s, m_caps = c\<rparr>)"

text \<open>\<open>match.group(i)\<close> for a group that took part in the match.\<close>

definition group :: "rmatched \<Rightarrow> nat \<Rightarrow> string" where
  "group m i = (case map_of (m_caps m) i of Some g \<Rightarrow> g | None \<Rightarrow> [])"

text \<open>\<open>re.match\<close>: at the start of the subject only.\<close>

definition re_match :: "rx \<Rightarrow> string \<Rightarrow> rmatched option" where
  "re_match r s = match_at r None s"

text \<open>\<open>re.search\<close>: the first start position, from the left, with a match.\<close>

fun search_from :: "rx \<Rightarrow> char option \<Rightarrow> string \<Rightarrow> rmatched option" where
  "search_from r prev [] = match_at r prev []"
| "search_from r prev (c # cs) =
     (case match_at r prev (c # cs) of
        Some m \<Rightarrow> Some m
      | None \<Rightarrow> search_from r (Some c) cs)"

definition re_search :: "rx \<Rightarrow> string \<Rightarrow> rmatched option" where
  "re_search r s = search_from r None s"

text \<open>
  \<open>re.finditer\<close>: the matches from left to right, each search starting where the
  previous match ended.  After an empty match \<open>re\<close> moves on by one character.
\<close>

function finditer_from :: "rx \<Rightarrow> char option \<Rightarrow> string \<Rightarrow> rmatched list" where
  "finditer_from r prev s =
     (case search_from r prev s of
        None \<Rightarrow> []
      | Some m \<Rightarrow>
          (if length (m_rest m) < length s
           then m # finditer_from r (m_prev m) (m_rest m)
           else (case m_rest m of
                   [] \<Rightarrow> [m]
                 | c # cs \<Rightarrow>
                     (if length cs < length s then m # finditer_from r (Some c) cs else [m]))))"
  by pat_completeness auto
termination
  by (relation "measure (\<lambda>(r, prev, s). length s)") auto

declare finditer_from.simps [simp del]

definition finditer :: "rx \<Rightarrow> string \<Rightarrow> rmatched list" where
  "finditer r s = finditer_from r None s"

text \<open>\<open>re.findall\<close> for a pattern with exactly one group: the texts of that group.\<close>

definition findall1 :: "rx \<Rightarrow> string \<Rightarrow> string list" where
  "findall1 r s = map (\<lambda>m. group m 1) (finditer r s)"

section \<open>The environment validator (\<open>validate_env.py\<close>)\<close>

text \<open>
  The outside world of the script: \<open>shutil.which\<close>, \<open>Path.exists\<close> and
  \<open>subprocess.run\<close>.  A call of \<open>subprocess.run\<close> either completes or raises (a
  timeout, a launch failure); the exception carries the text \<open>str(e)\<close>.  Every command
  line is run at most once in one validation, so the world is a function of the
  command line.  The printing of the report is not modelled.
\<close>

record completed =
  returncode :: int
  stdout :: string
  stderr :: string

record env =
  which :: "string \<Rightarrow> bool"
  run :: "string list \<Rightarrow> exn + completed"
  path_exists :: "string \<Rightarrow> bool"

record ToolCheck =
  tool :: string
  required :: bool
  found :: bool
  version :: "string option"
  message :: "string option"

text \<open>
  \<open>check_command\<close>.  The result is a sum so that an exception leaving the function
  would be a value \<open>Inl\<close>; the \<open>try\<close> of the source catches every exception of the
  version command.
\<close>

definition check_command :: "env \<Rightarrow> string \<Rightarrow> string \<Rightarrow> bool \<Rightarrow> exn + ToolCheck" where
  "check_command e cmd version_arg req =
     (let fnd = which e cmd in
      if fnd then
        (case run e [cmd, version_arg] of
           Inr result \<Rightarrow>
             (let output = (if stdout result \<noteq> [] then stdout result else stderr result);
                  ver = (if output \<noteq> [] then hd (split_on NL (strip output)) else ''Unknown'')
              in Inr \<lparr>tool = cmd, required = req, found = fnd,
                      version = Some ver, message = None\<rparr>)
         | Inl (Raised msg) \<Rightarrow>
             Inr \<lparr>tool = cmd, required = req, found = fnd,
                  version = Some ''Unknown'',
                  message = Some (''Found but version check failed: '' @ msg)\<rparr>)
      else
        Inr \<lparr>tool = cmd, required = req, found = fnd,
             version = None, message = Some ''Not found in PATH''\<rparr>)"

text \<open>\<open>check_go_modules\<close>, with the repository root as a path prefix.\<close>

definition check_go_modules :: "env \<Rightarrow> string \<Rightarrow> bool \<times> string" where
  "check_go_modules e repo_root =
     (if \<not> path_exists e (repo_root @ ''/go.mod'') then (False, ''go.mod not found'')
      else if \<not> path_exists e (repo_root @ ''/go.sum'')
      then (False, ''go.sum not found - run 'hugo mod get' or 'hugo mod tidy'' @ [SQ])
      else (case run e [''go'', ''mod'', ''verify''] of
              Inr result \<Rightarrow>
                (if returncode result = 0 then (True, ''Go modules verified'')
                 else (False, ''Go module verification failed: '' @ stderr result))
            | Inl (Raised msg) \<Rightarrow> (False, ''Could not verify Go modules: '' @ msg)))"

text \<open>
  \<open>check_hugo_version\<close>.  An empty version string is falsy in Python, as \<open>None\<close> is.
\<close>

definition str_opt :: "string option \<Rightarrow> string" where
  "str_opt v = (case v of None \<Rightarrow> ''None'' | Some s \<Rightarrow> s)"

definition check_hugo_version :: "env \<Rightarrow> exn + (bool \<times> string)" where
  "check_hugo_version e =
     (case check_command e ''hugo'' ''version'' True of
        Inl x \<Rightarrow> Inl x
      | Inr hugo_check \<Rightarrow>
          (if \<not> found hugo_check then Inr (False, ''Hugo not installed'')
           else if (case version hugo_check of
                      None \<Rightarrow> False
                    | Some v \<Rightarrow> v \<noteq> [] \<and> contains ''extended'' (lower v))
           then Inr (True, ''Hugo extended found: '' @ str_opt (version hugo_check))
           else Inr (False, ''Hugo extended required but found: '' @ str_opt (version hugo_check))))"

text \<open>The pattern \<open>Python (\d+)\.(\d+)\<close> of \<open>check_python_version\<close>.\<close>

definition python_pattern :: rx where
  "python_pattern =
     Cat (Lit ''Python '')
       (Cat (Grp 1 (Rep CDigit 1 None True))
         (Cat (Lit ''.'') (Grp 2 (Rep CDigit 1 None True))))"

definition check_python_version :: "env \<Rightarrow> bool \<times> string" where
  "check_python_version e =
     (case run e [''python3'', ''--version''] of
        Inl (Raised msg) \<Rightarrow> (False, ''Python check failed: '' @ msg)
      | Inr result \<Rightarrow>
          (let version_str = strip (stdout result) in
           case re_search python_pattern version_str of
             Some m \<Rightarrow>
               (case py_int (group m 1) of
                  Inl (Raised msg) \<Rightarrow> (False, ''Python check failed: '' @ msg)
                | Inr major \<Rightarrow>
               (case py_int (group m 2) of
                  Inl (Raised msg) \<Rightarrow> (False, ''Python check failed: '' @ msg)
                | Inr minor \<Rightarrow>
                   (if major \<ge> 3 \<and> minor \<ge> 7
                    then (True, ''Python '' @ str_nat (nat major) @ ''.'' @ str_nat (nat minor)
                                  @ '' (meets requirement: 3.7+)'')
                    else (False, ''Python '' @ str_nat (nat major) @ ''.'' @ str_nat (nat minor)
                                   @ '' found but 3.7+ required''))))
           | None \<Rightarrow> (True, version_str)))"

text \<open>
  \<open>check_git_config\<close>.  The three commands run in this order; an exception of any of
  them leaves through the one \<open>except\<close>.
\<close>

definition check_git_config :: "env \<Rightarrow> bool \<times> string" where
  "check_git_config e =
     (case run e [''git'', ''rev-parse'', ''--git-dir''] of
        Inl (Raised msg) \<Rightarrow> (False, ''Git check failed: '' @ msg)
      | Inr result \<Rightarrow>
          (if returncode result \<noteq> 0 then (False, ''Not a git repository'')
           else
             (case run e [''git'', ''config'', ''user.name''] of
                Inl (Raised msg) \<Rightarrow> (False, ''Git check failed: '' @ msg)
              | Inr name_result \<Rightarrow>
                  (case run e [''git'', ''config'', ''user.email''] of
                     Inl (Raised msg) \<Rightarrow> (False, ''Git check failed: '' @ msg)
                   | Inr email_result \<Rightarrow>
                       (let has_name = (returncode name_result = 0
                                          \<and> strip (stdout name_result) \<noteq> []);
                            has_email = (returncode email_result = 0
                                          \<and> strip (stdout email_result) \<noteq> [])
                        in if has_name \<and> has_email then (True, ''Git user configured'')
                           else (False, ''Git user.name or user.email not configured''))))))"

text \<open>
  \<open>EnvironmentValidator.validate\<close>: the state of the object is the list \<open>checks\<close>;
  the result is the conjunction of the five required checks.
\<close>

record EnvironmentValidator =
  checks :: "ToolCheck list"
  repo_root :: string

definition env_validate :: "env \<Rightarrow> EnvironmentValidator \<Rightarrow> exn + (bool \<times> EnvironmentValidator)" where
  "env_validate e v =
     (case check_hugo_version e of
        Inl x \<Rightarrow> Inl x
      | Inr (hugo_ok, hugo_msg) \<Rightarrow>
     (case check_command e ''go'' ''version'' True of
        Inl x \<Rightarrow> Inl x
      | Inr go_check \<Rightarrow>
     (let v1 = v\<lparr>checks := checks v @ [go_check]\<rparr>;
          (python_ok, python_msg) = check_python_version e
      in
     (case check_command e ''git'' ''version'' True of
        Inl x \<Rightarrow> Inl x
      | Inr git_check \<Rightarrow>
     (let v2 = v1\<lparr>checks := checks v1 @ [git_check]\<rparr>;
          (git_config_ok, git_config_msg) = check_git_config e;
          (go_mod_ok, go_mod_msg) =
             (if found go_check then check_go_modules e (repo_root v2)
              else (False, ''Skipped (Go not found)''))
      in
     (case check_command e ''make'' ''--version'' False of
        Inl x \<Rightarrow> Inl x
      | Inr make_check \<Rightarrow>
     (let all_required_ok =
            (hugo_ok \<and> found go_check \<and> python_ok \<and> found git_check \<and> git_config_ok)
      in Inr (all_required_ok, v2))))))))"

text \<open>\<open>main\<close> of \<open>validate_env.py\<close>: the exit code of the process.\<close>

definition env_main :: "env \<Rightarrow> string \<Rightarrow> exn + int" where
  "env_main e root =
     (case env_validate e \<lparr>checks = [], repo_root = root\<rparr> of
        Inl x \<Rightarrow> Inl x
      | Inr (success, v) \<Rightarrow> Inr (if success then 0 else 1))"

section \<open>The configuration validator (\<open>validate_config.py\<close>)\<close>

record ValidationResult =
  passed :: bool
  message :: string
  severity :: string

record ConfigValidator =
  config_path :: string
  config_content :: string
  results :: "ValidationResult list"

text \<open>
  What the file system answers for the configuration path: \<open>exists()\<close> is false,
  \<open>exists()\<close> or \<open>read_text\<close> raises (the text is \<open>str(e)\<close>), or the text is read.
\<close>

datatype config_file = Missing | Unreadable string | Readable string

definition add_result :: "ValidationResult \<Rightarrow> ConfigValidator \<Rightarrow> ConfigValidator" where
  "add_result r v = v\<lparr>results := results v @ [r]\<rparr>"

definition load_config :: "config_file \<Rightarrow> ConfigValidator \<Rightarrow> bool \<times> ConfigValidator" where
  "load_config f v =
     (case f of
        Missing \<Rightarrow>
          (False, add_result \<lparr>passed = False,
                     message = ''Configuration file not found: '' @ config_path v,
                     severity = ''error''\<rparr> v)
      | Readable txt \<Rightarrow> (True, v\<lparr>config_content := txt\<rparr>)
      | Unreadable e \<Rightarrow>
          (False, add_result \<lparr>passed = False,
                     message = ''Failed to read config: '' @ e,
                     severity = ''error''\<rparr> v))"

text \<open>
  The pattern \<open>^\s*FIELD\s*=\s*.+$\<close> under \<open>re.MULTILINE\<close>; \<open>re.escape\<close> makes the
  field name a literal.
\<close>

definition required_pattern :: "string \<Rightarrow> rx" where
  "required_pattern field =
     Cat BolM (Cat (Rep CSpace 0 None True) (Cat (Lit field) (Cat (Rep CSpace 0 None True)
       (Cat (Lit ''='') (Cat (Rep CSpace 0 None True) (Cat (Rep CDot 1 None True) EolM))))))"

definition required_fields :: "(string \<times> string) list" where
  "required_fields =
     [(''baseURL'', ''Base URL must be defined for proper site generation''),
      (''title'', ''Site title is required for SEO and accessibility''),
      (''languageCode'', ''Language code required for proper HTML lang attribute'')]"

definition required_field_result :: "string \<Rightarrow> string \<times> string \<Rightarrow> ValidationResult" where
  "required_field_result content fr =
     (case fr of (field, reason) \<Rightarrow>
        (if re_search (required_pattern field) content = None
         then \<lparr>passed = False,
                message = ''Missing required field '' @ [SQ] @ field @ [SQ] @ '': '' @ reason,
                severity = ''error''\<rparr>
         else \<lparr>passed = True,
                message = ''Required field '' @ [SQ] @ field @ [SQ] @ '' is present'',
                severity = ''info''\<rparr>))"

definition validate_required_fields :: "ConfigValidator \<Rightarrow> ConfigValidator" where
  "validate_required_fields v =
     foldl (\<lambda>w fr. add_result (required_field_result (config_content w) fr) w) v required_fields"

definition validate_security_settings :: "ConfigValidator \<Rightarrow> ConfigValidator" where
  "validate_security_settings v =
     (let v1 = (if contains ''unsafe = true'' (config_content v)
                then add_result \<lparr>passed = True,
                       message = ''Unsafe HTML rendering enabled - ensure content is trusted'',
                       severity = ''warning''\<rparr> v
                else v)
      in if contains ''rel='' (config_content v1)
            \<and> (contains ''noreferrer'' (config_content v1) \<or> contains ''noopener'' (config_content v1))
         then add_result \<lparr>passed = True,
                message = ''External links have security attributes (noreferrer/noopener)'',
                severity = ''info''\<rparr> v1
         else v1)"

text \<open>The pattern \<open>^\s*FIELD\s*=\s*true\<close> under \<open>re.MULTILINE\<close>.\<close>

definition default_pattern :: "string \<Rightarrow> rx" where
  "default_pattern field =
     Cat BolM (Cat (Rep CSpace 0 None True) (Cat (Lit field) (Cat (Rep CSpace 0 None True)
       (Cat (Lit ''='') (Cat (Rep CSpace 0 None True) (Lit ''true''))))))"

definition defensive_checks :: "(string \<times> string) list" where
  "defensive_checks =
     [(''enableRobotsTXT'', ''Robots.txt should be enabled for SEO control''),
      (''enableGitInfo'', ''Git info provides useful metadata for debugging'')]"

definition defensive_default_result :: "string \<Rightarrow> string \<times> string \<Rightarrow> ValidationResult" where
  "defensive_default_result content fr =
     (case fr of (field, reason) \<Rightarrow>
        (if re_search (default_pattern field) content \<noteq> None
         then \<lparr>passed = True,
                message = ''Defensive default enabled: '' @ field,
                severity = ''info''\<rparr>
         else \<lparr>passed = False,
                message = ''Recommended: Enable '' @ field @ '' - '' @ reason,
                severity = ''warning''\<rparr>))"

definition validate_defensive_defaults :: "ConfigValidator \<Rightarrow> ConfigValidator" where
  "validate_defensive_defaults v =
     foldl (\<lambda>w fr. add_result (defensive_default_result (config_content w) fr) w) v defensive_checks"

text \<open>
  The pattern \<open>\[\[menu\.main\]\](.*?)(?=\[\[menu\.main\]\]|$)\<close> under \<open>re.DOTALL\<close>,
  and the pattern \<open>weight\s*=\s*(\d+)\<close>.
\<close>

definition menu_pattern :: rx where
  "menu_pattern =
     Cat (Lit ''[[menu.main]]'') (Cat (Grp 1 (Rep CAny 0 None False))
       (Ahead (Alt (Lit ''[[menu.main]]'') Eol)))"

definition weight_pattern :: rx where
  "weight_pattern =
     Cat (Lit ''weight'') (Cat (Rep CSpace 0 None True) (Cat (Lit ''='')
       (Cat (Rep CSpace 0 None True) (Grp 1 (Rep CDigit 1 None True)))))"

text \<open>
  The loop that collects the weights: one for each menu block that has one.  The
  conversion of a weight can raise, and nothing catches the exception.
\<close>

fun collect_weights :: "int list \<Rightarrow> string list \<Rightarrow> exn + int list" where
  "collect_weights weights [] = Inr weights"
| "collect_weights weights (item # menu_items) =
     (case re_search weight_pattern item of
        Some weight_match \<Rightarrow>
          (case py_int (group weight_match 1) of
             Inl e \<Rightarrow> Inl e
           | Inr w \<Rightarrow> collect_weights (weights @ [w]) menu_items)
      | None \<Rightarrow> collect_weights weights menu_items)"

definition menu_weights :: "string \<Rightarrow> exn + int list" where
  "menu_weights content = collect_weights [] (findall1 menu_pattern content)"

definition validate_menu_structure :: "ConfigValidator \<Rightarrow> exn + ConfigValidator" where
  "validate_menu_structure v =
     (case menu_weights (config_content v) of
        Inl e \<Rightarrow> Inl e
      | Inr weights \<Rightarrow>
          Inr (if weights \<noteq> [] then
                 (if length weights = card (set weights)
                  then add_result \<lparr>passed = True,
                         message = ''Menu weights are unique ('' @ str_nat (length weights) @ '' items)'',
                         severity = ''info''\<rparr> v
                  else add_result \<lparr>passed = False,
                         message = ''Duplicate menu weights found - may cause ordering issues'',
                         severity = ''warning''\<rparr> v)
               else v))"

text \<open>The pattern \<open>type\s*=\s*["']search["']\<close>.\<close>

definition search_type_pattern :: rx where
  "search_type_pattern =
     Cat (Lit ''type'') (Cat (Rep CSpace 0 None True) (Cat (Lit ''='')
       (Cat (Rep CSpace 0 None True) (Cat (Rep (CIn [CHR 0x22, SQ]) 1 (Some 1) True)
         (Cat (Lit ''search'') (Rep (CIn [CHR 0x22, SQ]) 1 (Some 1) True))))))"

definition validate_accessibility :: "ConfigValidator \<Rightarrow> ConfigValidator" where
  "validate_accessibility v =
     (let v1 = (if contains ''languageCode'' (config_content v)
                   \<or> contains ''defaultContentLanguage'' (config_content v)
                then add_result \<lparr>passed = True,
                       message = ''Language configuration present for accessibility'',
                       severity = ''info''\<rparr> v
                else v)
      in if re_search search_type_pattern (config_content v1) \<noteq> None
         then add_result \<lparr>passed = True,
                message = ''Search functionality configured (enhances accessibility)'',
                severity = ''info''\<rparr> v1
         else v1)"

text \<open>
  \<open>ConfigValidator.validate\<close>: the result and the validator after the run, or the
  exception of the menu rule.
\<close>

definition has_errors :: "ValidationResult list \<Rightarrow> bool" where
  "has_errors rs = (\<exists>r \<in> set rs. severity r = ''error'' \<and> \<not> passed r)"

definition validate :: "config_file \<Rightarrow> ConfigValidator \<Rightarrow> exn + (bool \<times> ConfigValidator)" where
  "validate f v =
     (case load_config f v of
        (False, v0) \<Rightarrow> Inr (False, v0)
      | (True, v0) \<Rightarrow>
          (let v1 = validate_required_fields v0;
               v2 = validate_security_settings v1;
               v3 = validate_defensive_defaults v2
           in case validate_menu_structure v3 of
                Inl e \<Rightarrow> Inl e
              | Inr v4 \<Rightarrow>
                  (let v5 = validate_accessibility v4
                   in Inr (\<not> has_errors (results v5), v5))))"

text \<open>
  \<open>main\<close> of \<open>validate_config.py\<close>: a new validator for the path; the value
  returned, with the validator, or the exception that leaves \<open>main\<close>.
\<close>

definition ConfigValidator_init :: "string \<Rightarrow> ConfigValidator" where
  "ConfigValidator_init p = \<lparr>config_path = p, config_content = [], results = []\<rparr>"

definition config_main :: "string \<Rightarrow> config_file \<Rightarrow> exn + (int \<times> ConfigValidator)" where
  "config_main p f =
     (case validate f (ConfigValidator_init p) of
        Inl e \<Rightarrow> Inl e
      | Inr (success, v) \<Rightarrow> Inr (if success then 0 else 1, v))"

text \<open>The exit code of the configuration validator.\<close>

definition config_exit :: "string \<Rightarrow> config_file \<Rightarrow> int" where
  "config_exit p f = process_exit (map_sum id fst (config_main p f))"

section \<open>The content validator (\<open>validate_content.py\<close>)\<close>

definition MAX_DISPLAYED_ISSUES :: nat where
  "MAX_DISPLAYED_ISSUES = 10"

definition MAX_URL_DISPLAY_LENGTH :: nat where
  "MAX_URL_DISPLAY_LENGTH = 50"

record ContentIssue =
  file_path :: string
  line_number :: nat
  severity :: string
  category :: string
  message :: string

text \<open>The dictionary \<open>stats\<close> has four fixed keys; it is a record of four counters.\<close>

record Stats =
  files_checked :: nat
  internal_links_found :: nat
  external_links_found :: nat
  images_found :: nat

record ContentValidator =
  content_dir :: string
  issues :: "ContentIssue list"
  stats :: Stats

text \<open>
  What the file system answers: whether the content directory exists, the paths
  \<open>rglob("*.md")\<close> lists (in its order), and for each path the text \<open>read_text\<close>
  returns or the exception it raises.
\<close>

record content_fs =
  dir_exists :: bool
  rglob_md :: "string list"
  read_text :: "string \<Rightarrow> exn + string"

definition add_issue :: "ContentIssue \<Rightarrow> ContentValidator \<Rightarrow> ContentValidator" where
  "add_issue i v = v\<lparr>issues := issues v @ [i]\<rparr>"

definition find_markdown_files :: "content_fs \<Rightarrow> ContentValidator \<Rightarrow> string list" where
  "find_markdown_files fs v = (if \<not> dir_exists fs then [] else rglob_md fs)"

text \<open>\<open>Path.name\<close>: the last component of a path.\<close>

definition path_name :: "string \<Rightarrow> string" where
  "path_name p = last (split_on (CHR ''/'') p)"

definition check_frontmatter :: "string \<Rightarrow> string \<Rightarrow> string list \<Rightarrow> ContentValidator \<Rightarrow> ContentValidator" where
  "check_frontmatter fp content lines v =
     (if \<not> (startswith content ''---'' \<or> startswith content ''+++'')
      then (if path_name fp \<noteq> ''_index.md''
            then add_issue \<lparr>file_path = fp, line_number = 1, severity = ''warning'',
                   category = ''structure'',
                   message = ''No frontmatter detected - consider adding title and metadata''\<rparr> v
            else v)
      else v)"

text \<open>The pattern \<open>\[([^\]]+)\]\(([^\)]+)\)\<close> of \<open>_check_links\<close>.\<close>

definition link_pattern :: rx where
  "link_pattern =
     Cat (Lit ''['') (Cat (Grp 1 (Rep (CNotIn '']'') 1 None True)) (Cat (Lit '']('')
       (Cat (Grp 2 (Rep (CNotIn '')'') 1 None True)) (Lit '')''))))"

text \<open>
  The body of the inner loop of \<open>_check_links\<close> for one match; \<open>continue\<close> returns
  the validator as it is.
\<close>

definition check_link :: "string \<Rightarrow> nat \<Rightarrow> rmatched \<Rightarrow> ContentValidator \<Rightarrow> ContentValidator" where
  "check_link fp line_num m v =
     (let link_text = group m 1; link_url = group m 2 in
      if startswith link_url ''#'' \<or> startswith link_url ''mailto:'' then v
      else
        (let v1 =
           (if startswith link_url ''http://'' \<or> startswith link_url ''https://''
            then
              (let w = v\<lparr>stats := (stats v)\<lparr>external_links_found :=
                                       external_links_found (stats v) + 1\<rparr>\<rparr>
               in if startswith link_url ''http://''
                  then add_issue \<lparr>file_path = fp, line_number = line_num,
                         severity = ''warning'', category = ''link'',
                         message = ''Non-HTTPS link found: ''
                                     @ take MAX_URL_DISPLAY_LENGTH link_url @ ''...''\<rparr> w
                  else w)
            else
              (let w = v\<lparr>stats := (stats v)\<lparr>internal_links_found :=
                                       internal_links_found (stats v) + 1\<rparr>\<rparr>
               in if \<not> startswith link_url ''/'' \<and> \<not> startswith link_url ''../''
                  then (if contains ''.'' link_url
                        then add_issue \<lparr>file_path = fp, line_number = line_num,
                               severity = ''info'', category = ''link'',
                               message = ''Relative link without path prefix: '' @ link_url\<rparr> w
                        else w)
                  else w))
         in if strip link_text = []
            then add_issue \<lparr>file_path = fp, line_number = line_num,
                   severity = ''warning'', category = ''accessibility'',
                   message = ''Link has empty text - bad for screen readers''\<rparr> v1
            else v1))"

definition check_links :: "string \<Rightarrow> string \<Rightarrow> string list \<Rightarrow> ContentValidator \<Rightarrow> ContentValidator" where
  "check_links fp content lines v =
     foldl (\<lambda>w (line_num, line).
              foldl (\<lambda>u m. check_link fp line_num m u) w (finditer link_pattern line))
       v (enumerate 1 lines)"

text \<open>The pattern \<open>^(#{1,6})\s+(.+)$\<close> of \<open>_check_headings\<close>, used with \<open>re.match\<close>.\<close>

definition heading_pattern :: rx where
  "heading_pattern =
     Cat Bol (Cat (Grp 1 (Rep (CIn ''#'') 1 (Some 6) True)) (Cat (Rep CSpace 1 None True)
       (Cat (Grp 2 (Rep CDot 1 None True)) Eol)))"

text \<open>The first loop: the headings as triples of level, text and line number.\<close>

definition find_headings :: "string list \<Rightarrow> (nat \<times> string \<times> nat) list" where
  "find_headings lines =
     foldl (\<lambda>headings (line_num, line).
              (case re_match heading_pattern line of
                 Some heading_match \<Rightarrow>
                   headings @ [(length (group heading_match 1),
                                strip (group heading_match 2), line_num)]
               | None \<Rightarrow> headings))
       [] (enumerate 1 lines)"

text \<open>The second loop: the state is the validator and \<open>prev_level\<close>.\<close>

definition heading_step :: "string \<Rightarrow> ContentValidator \<times> nat \<Rightarrow> nat \<times> string \<times> nat \<Rightarrow> ContentValidator \<times> nat" where
  "heading_step fp st h =
     (case st of (v, prev_level) \<Rightarrow>
      case h of (level, text, line_num) \<Rightarrow>
        ((if level > prev_level + 1 \<and> prev_level > 0
          then add_issue \<lparr>file_path = fp, line_number = line_num,
                 severity = ''info'', category = ''structure'',
                 message = ''Heading level jump from h'' @ str_nat prev_level @ '' to h''
                             @ str_nat level @ '' - may affect accessibility''\<rparr> v
          else v),
         level))"

definition check_headings :: "string \<Rightarrow> string \<Rightarrow> string list \<Rightarrow> ContentValidator \<Rightarrow> ContentValidator" where
  "check_headings fp content lines v =
     (let headings = find_headings lines in
      if headings \<noteq> [] then fst (foldl (heading_step fp) (v, 0) headings) else v)"

text \<open>\<open>_check_code_blocks\<close>: the state is the validator and the two local variables.\<close>

definition code_block_step :: "string \<Rightarrow> ContentValidator \<times> bool \<times> nat \<Rightarrow> nat \<times> string \<Rightarrow> ContentValidator \<times> bool \<times> nat" where
  "code_block_step fp st ln =
     (case st of (v, in_code_block, code_block_start) \<Rightarrow>
      case ln of (line_num, line) \<Rightarrow>
        (if startswith (strip line) ''```''
         then (if \<not> in_code_block
               then (let lang = strip (drop 3 (strip line)) in
                     ((if lang = []
                       then add_issue \<lparr>file_path = fp, line_number = line_num,
                              severity = ''info'', category = ''formatting'',
                              message = ''Code block without language specification - consider adding for syntax highlighting''\<rparr> v
                       else v),
                      True, line_num))
               else (v, False, code_block_start))
         else (v, in_code_block, code_block_start)))"

definition check_code_blocks :: "string \<Rightarrow> string \<Rightarrow> string list \<Rightarrow> ContentValidator \<Rightarrow> ContentValidator" where
  "check_code_blocks fp content lines v =
     fst (foldl (code_block_step fp) (v, False, 0) (enumerate 1 lines))"

text \<open>The pattern \<open>!\[([^\]]*)\]\(([^\)]+)\)\<close> of \<open>_check_accessibility\<close>.\<close>

definition image_pattern :: rx where
  "image_pattern =
     Cat (Lit ''!['') (Cat (Grp 1 (Rep (CNotIn '']'') 0 None True)) (Cat (Lit '']('')
       (Cat (Grp 2 (Rep (CNotIn '')'') 1 None True)) (Lit '')''))))"

definition check_image :: "string \<Rightarrow> nat \<Rightarrow> rmatched \<Rightarrow> ContentValidator \<Rightarrow> ContentValidator" where
  "check_image fp line_num m v =
     (let alt_text = group m 1; image_url = group m 2;
          w = v\<lparr>stats := (stats v)\<lparr>images_found := images_found (stats v) + 1\<rparr>\<rparr>
      in if strip alt_text = []
         then (let display_url = (if length image_url > MAX_URL_DISPLAY_LENGTH
                                  then take MAX_URL_DISPLAY_LENGTH image_url else image_url);
                   truncation_suffix = (if length image_url > MAX_URL_DISPLAY_LENGTH
                                        then ''...'' else [])
               in add_issue \<lparr>file_path = fp, line_number = line_num,
                    severity = ''warning'', category = ''accessibility'',
                    message = ''Image without alt text: '' @ display_url @ truncation_suffix
                                @ '' (bad for screen readers)''\<rparr> w)
         else w)"

definition check_accessibility :: "string \<Rightarrow> string \<Rightarrow> string list \<Rightarrow> ContentValidator \<Rightarrow> ContentValidator" where
  "check_accessibility fp content lines v =
     foldl (\<lambda>w (line_num, line).
              foldl (\<lambda>u m. check_image fp line_num m u) w (finditer image_pattern line))
       v (enumerate 1 lines)"

text \<open>
  \<open>validate_file\<close>: only \<open>read_text\<close> can raise inside the \<open>try\<close>; the handler
  records one error for the file.
\<close>

definition validate_file :: "content_fs \<Rightarrow> string \<Rightarrow> ContentValidator \<Rightarrow> ContentValidator" where
  "validate_file fs fp v =
     (case read_text fs fp of
        Inl (Raised e) \<Rightarrow>
          add_issue \<lparr>file_path = fp, line_number = 0, severity = ''error'',
            category = ''structure'', message = ''Failed to read file: '' @ e\<rparr> v
      | Inr content \<Rightarrow>
          (let lines = split_on NL content;
               v0 = v\<lparr>stats := (stats v)\<lparr>files_checked := files_checked (stats v) + 1\<rparr>\<rparr>;
               v1 = check_frontmatter fp content lines v0;
               v2 = check_links fp content lines v1;
               v3 = check_headings fp content lines v2;
               v4 = check_code_blocks fp content lines v3
           in check_accessibility fp content lines v4))"

definition validate_all :: "content_fs \<Rightarrow> ContentValidator \<Rightarrow> bool \<times> ContentValidator" where
  "validate_all fs v =
     (let markdown_files = find_markdown_files fs v in
      if markdown_files = [] then (True, v)
      else (let v1 = foldl (\<lambda>w fp. validate_file fs fp w) v markdown_files
            in (length (filter (\<lambda>i. severity i = ''error'') (issues v1)) = 0, v1)))"

text \<open>
  \<open>main\<close> of \<open>validate_content.py\<close>: a new validator for the directory, and the exit
  code of the process.
\<close>

definition ContentValidator_init :: "string \<Rightarrow> ContentValidator" where
  "ContentValidator_init d =
     \<lparr>content_dir = d, issues = [],
      stats = \<lparr>files_checked = 0, internal_links_found = 0,
               external_links_found = 0, images_found = 0\<rparr>\<rparr>"

definition content_main :: "string \<Rightarrow> content_fs \<Rightarrow> int \<times> ContentValidator" where
  "content_main d fs =
     (case validate_all fs (ContentValidator_init d) of
        (success, v) \<Rightarrow> (if success then 0 else 1, v))"

section \<open>Notions used to state the properties\<close>

text \<open>
  The findings one rule of the configuration validator adds for a text: the results
  of the rule on a validator that holds the text and no result yet.
\<close>

definition rule_findings :: "(ConfigValidator \<Rightarrow> ConfigValidator) \<Rightarrow> string \<Rightarrow> ValidationResult list" where
  "rule_findings rule txt = results (rule \<lparr>config_path = [], config_content = txt, results = []\<rparr>)"

text \<open>The findings the menu rule adds for a list of weights.\<close>

definition menu_findings :: "int list \<Rightarrow> ValidationResult list" where
  "menu_findings weights =
     (if weights = [] then []
      else if distinct weights
      then [\<lparr>passed = True,
             message = ''Menu weights are unique ('' @ str_nat (length weights) @ '' items)'',
             severity = ''info''\<rparr>]
      else [\<lparr>passed = False,
             message = ''Duplicate menu weights found - may cause ordering issues'',
             severity = ''warning''\<rparr>])"

text \<open>The findings of a whole run on a text whose menu weights are given.\<close>

definition run_findings :: "string \<Rightarrow> int list \<Rightarrow> ValidationResult list" where
  "run_findings txt weights =
     rule_findings validate_required_fields txt
       @ rule_findings validate_security_settings txt
       @ rule_findings validate_defensive_defaults txt
       @ menu_findings weights
       @ rule_findings validate_accessibility txt"

text \<open>
  A text assigns a field when, at the start of one of its lines and after optional
  whitespace, it has the field name, optional whitespace, the sign \<open>=\<close>, optional
  whitespace and one more character that is not a newline.  Whitespace is any
  character of \<open>\s\<close>, the newline included.
\<close>

definition assigns :: "string \<Rightarrow> string \<Rightarrow> bool" where
  "assigns field txt =
     (\<exists>pre ws1 ws2 ws3 c rest.
        txt = pre @ ws1 @ field @ ws2 @ ''='' @ ws3 @ c # rest \<and>
        (pre = [] \<or> last pre = NL) \<and>
        list_all is_space ws1 \<and> list_all is_space ws2 \<and> list_all is_space ws3 \<and>
        c \<noteq> NL)"

text \<open>
  A menu block is the header \<open>[[menu.main]]\<close> and a body.  The body of a weighted
  block is some text, the word \<open>weight\<close>, whitespace, \<open>=\<close>, whitespace, the
  digits of the weight and the rest of the body; the body of an unweighted block is
  any text.
\<close>

datatype menu_block =
    Weighted string string string string string
  | Unweighted string

fun block_body :: "menu_block \<Rightarrow> string" where
  "block_body (Weighted a ws1 ws2 ds r) = a @ ''weight'' @ ws1 @ ''='' @ ws2 @ ds @ r"
| "block_body (Unweighted u) = u"

text \<open>
  A block is well formed when its body has no bracket, and: for a weighted block,
  the word \<open>weight\<close> does not start before the stated place, the whitespace is
  whitespace, and the digits are all the digits at that place; for an unweighted
  block, the word \<open>weight\<close> does not occur.
\<close>

definition starts_before :: "string \<Rightarrow> string \<Rightarrow> bool" where
  "starts_before w a = list_ex (\<lambda>k. prefix w (drop k (a @ w))) [0 ..< length a]"

fun block_ok :: "menu_block \<Rightarrow> bool" where
  "block_ok (Weighted a ws1 ws2 ds r) =
     (CHR ''['' \<notin> set (block_body (Weighted a ws1 ws2 ds r)) \<and>
      \<not> starts_before ''weight'' a \<and>
      list_all is_space ws1 \<and> list_all is_space ws2 \<and>
      ds \<noteq> [] \<and> list_all is_digit ds \<and> (r = [] \<or> \<not> is_digit (hd r)))"
| "block_ok (Unweighted u) = (CHR ''['' \<notin> set u \<and> \<not> sublist ''weight'' u)"

fun block_digits :: "menu_block \<Rightarrow> string option" where
  "block_digits (Weighted a ws1 ws2 ds r) = Some ds"
| "block_digits (Unweighted u) = None"

text \<open>
  A text of menu blocks: a part without bracket, then the blocks; and the weights
  of the blocks, in their order.
\<close>

definition menu_text :: "string \<Rightarrow> menu_block list \<Rightarrow> string" where
  "menu_text pre blocks = pre @ concat (map (\<lambda>b. ''[[menu.main]]'' @ block_body b) blocks)"

definition block_weights :: "menu_block list \<Rightarrow> int list" where
  "block_weights blocks = map (\<lambda>ds. int (int_of_digits ds)) (List.map_filter block_digits blocks)"

text \<open>
  The items the menu rule takes from such a text: the bodies of the blocks, the last
  one without a newline that ends the text.
\<close>

definition chomp :: "string \<Rightarrow> string" where
  "chomp s = (if s \<noteq> [] \<and> last s = NL then butlast s else s)"

fun block_items :: "menu_block list \<Rightarrow> string list" where
  "block_items [] = []"
| "block_items [b] = [chomp (block_body b)]"
| "block_items (b # c # bs) = block_body b # block_items (c # bs)"

text \<open>The first weight of the blocks that has more digits than \<open>int\<close> converts.\<close>

definition long_weight :: "menu_block list \<Rightarrow> string option" where
  "long_weight blocks =
     find (\<lambda>ds. INT_MAX_STR_DIGITS < length ds) (List.map_filter block_digits blocks)"

text \<open>
  The issue the second loop of \<open>_check_headings\<close> appends for a heading that
  follows a heading of level \<open>prev_level\<close>.
\<close>

definition heading_jump :: "string \<Rightarrow> nat \<Rightarrow> nat \<times> string \<times> nat \<Rightarrow> ContentIssue" where
  "heading_jump fp prev_level h =
     (case h of (level, text, line_num) \<Rightarrow>
        \<lparr>file_path = fp, line_number = line_num, severity = ''info'', category = ''structure'',
         message = ''Heading level jump from h'' @ str_nat prev_level @ '' to h''
                     @ str_nat level @ '' - may affect accessibility''\<rparr>)"

text \<open>
  One validator extends another by issues with a property: its issues are those of
  the other followed by new ones, all with the property.
\<close>

definition extends_issues :: "(ContentIssue \<Rightarrow> bool) \<Rightarrow> ContentValidator \<Rightarrow> ContentValidator \<Rightarrow> bool" where
  "extends_issues P v w = (\<exists>new. issues w = issues v @ new \<and> list_all P new)"

text \<open>The issues of one file: those a check may append, and the one of a failed read.\<close>

definition advisory_for :: "string \<Rightarrow> ContentIssue \<Rightarrow> bool" where
  "advisory_for fp i = (file_path i = fp \<and> ContentIssue.severity i \<noteq> ''error'')"

definition read_error :: "string \<Rightarrow> string \<Rightarrow> ContentIssue" where
  "read_error fp e =
     \<lparr>file_path = fp, line_number = 0, severity = ''error'', category = ''structure'',
      message = ''Failed to read file: '' @ e\<rparr>"

section \<open>Inputs used as examples\<close>

text \<open>Environments: one where every version command times out, one without \<open>hugo\<close>
  on the path, and one where \<open>git config user.email\<close> fails.\<close>

definition env_timeout :: env where
  "env_timeout = \<lparr>which = (\<lambda>c. True), run = (\<lambda>a. Inl (Raised ''timed out after 5 seconds'')), path_exists = (\<lambda>p. False)\<rparr>"

definition env_no_hugo :: env where
  "env_no_hugo = \<lparr>which = (\<lambda>c. c \<noteq> ''hugo''),
      run = (\<lambda>a. Inr \<lparr>returncode = 0, stdout = ''Python 3.11.4'', stderr = []\<rparr>),
      path_exists = (\<lambda>p. True)\<rparr>"

definition env_no_email :: env where
  "env_no_email = \<lparr>which = (\<lambda>c. True),
      run = (\<lambda>a. if a = [''git'', ''config'', ''user.email'']
                 then Inr \<lparr>returncode = 1, stdout = [], stderr = []\<rparr>
                 else Inr \<lparr>returncode = 0, stdout = ''Python 3.11 extended'', stderr = []\<rparr>),
      path_exists = (\<lambda>p. True)\<rparr>"

text \<open>Whether \<open>git config user.email\<close> answers with a value.\<close>

definition email_configured :: "env \<Rightarrow> bool" where
  "email_configured e =
     (case run e [''git'', ''config'', ''user.email''] of
        Inl x \<Rightarrow> False
      | Inr r \<Rightarrow> returncode r = 0 \<and> strip (stdout r) \<noteq> [])"

text \<open>Configuration texts: the line of the specification, a text with the three
  required fields, one without \<open>baseURL\<close>, and two with three menu blocks.\<close>

definition baseURL_line :: string where
  "baseURL_line = ''baseURL = '' @ [CHR 0x22] @ ''https://example.com'' @ [CHR 0x22]"

definition cfg_good :: string where
  "cfg_good = baseURL_line @ [NL] @ ''title = x'' @ [NL] @ ''languageCode = en''"

definition cfg_no_base :: string where
  "cfg_no_base = ''title = x'' @ [NL] @ ''languageCode = en''"

definition cfg_menu_122 :: string where
  "cfg_menu_122 = ''[[menu.main]]'' @ [NL] @ ''weight = 1'' @ [NL] @
                  ''[[menu.main]]'' @ [NL] @ ''weight = 2'' @ [NL] @
                  ''[[menu.main]]'' @ [NL] @ ''weight = 2'' @ [NL]"

definition cfg_menu_123 :: string where
  "cfg_menu_123 = ''[[menu.main]]'' @ [NL] @ ''weight = 1'' @ [NL] @
                  ''[[menu.main]]'' @ [NL] @ ''weight = 2'' @ [NL] @
                  ''[[menu.main]]'' @ [NL] @ ''weight = 3'' @ [NL]"

text \<open>
  Content directories: one that does not exist, and one with a file that is read
  and a file whose reading raises.
\<close>

definition fs_no_dir :: content_fs where
  "fs_no_dir = \<lparr>dir_exists = False, rglob_md = [],
                 read_text = (\<lambda>p. Inl (Raised ''No such file or directory''))\<rparr>"

definition fs_unreadable :: content_fs where
  "fs_unreadable =
     \<lparr>dir_exists = True, rglob_md = [''content/a.md'', ''content/b.md''],
      read_text = (\<lambda>p. if p = ''content/b.md'' then Inl (Raised ''invalid start byte'')
                        else Inr ''---'')\<rparr>"
section \<open>Facts about the matcher\<close>

text \<open>
  The counts a repetition may take, what a successful search says about the subject,
  and when the pattern of a required field matches.
\<close>

lemma set_rep_counts:
  "set (rep_counts C lo hi g s) =
     {k. lo \<le> k \<and> k \<le> length (takeWhile (cmem C) s) \<and> (case hi of None \<Rightarrow> True | Some h \<Rightarrow> k \<le> h)}"
  by (auto simp: rep_counts_def Let_def split: option.splits)

lemma rep_counts_le_length: "k \<in> set (rep_counts C lo hi g s) \<Longrightarrow> k \<le> length s"
  using length_takeWhile_le [of "cmem C" s] by (auto simp: set_rep_counts)

lemma match_at_eq_None: "match_at r prev s = None \<longleftrightarrow> rmatch r prev s [] = []"
  by (auto simp: match_at_def split: list.splits)

lemma search_from_append:
  "match_at r (if pre = [] then prev else Some (last pre)) suf \<noteq> None \<Longrightarrow>
   search_from r prev (pre @ suf) \<noteq> None"
proof (induction pre arbitrary: prev)
  case Nil
  then show ?case by (cases suf) (auto split: option.splits)
next
  case (Cons c pre)
  have "match_at r (if pre = [] then Some c else Some (last pre)) suf \<noteq> None"
    using Cons.prems by (auto split: if_splits)
  from Cons.IH [OF this] show ?case by (auto split: option.splits)
qed

lemma rmatch_Cat_nonempty:
  "(p, t, c) \<in> set (rmatch a prev s cp) \<Longrightarrow> rmatch b p t c \<noteq> [] \<Longrightarrow>
   rmatch (Cat a b) prev s cp \<noteq> []"
  by (cases "rmatch b p t c") force+

lemma Cat_Rep_nonempty:
  assumes "lo \<le> length w" and "\<forall>x\<in>set w. cmem C x" and "\<And>p. rmatch b p s cp \<noteq> []"
  shows "rmatch (Cat (Rep C lo None g) b) prev (w @ s) cp \<noteq> []"
proof -
  have "length w \<le> length (takeWhile (cmem C) (w @ s))"
    using assms(2) by (simp add: takeWhile_append2)
  with assms(1) have "length w \<in> set (rep_counts C lo None g (w @ s))"
    by (simp add: set_rep_counts)
  then have "(advance prev (w @ s) (length w), s, cp) \<in> set (rmatch (Rep C lo None g) prev (w @ s) cp)"
    by force
  from rmatch_Cat_nonempty [OF this assms(3)] show ?thesis .
qed

lemma Cat_Lit_nonempty:
  assumes "\<And>p. rmatch b p s cp \<noteq> []"
  shows "rmatch (Cat (Lit l) b) prev (l @ s) cp \<noteq> []"
proof -
  have "(advance prev (l @ s) (length l), s, cp) \<in> set (rmatch (Lit l) prev (l @ s) cp)"
    by simp
  from rmatch_Cat_nonempty [OF this assms] show ?thesis .
qed

subsection \<open>What a match says about the subject\<close>

lemma take_all_in_class:
  "k \<le> length (takeWhile P s) \<Longrightarrow> list_all P (take k s)"
  by (induction s arbitrary: k) (auto simp: take_Cons split: nat.splits if_splits)

lemma rmatch_Rep_D:
  assumes "(p, t, c) \<in> set (rmatch (Rep C lo hi g) prev s cp)"
  shows "\<exists>w. s = w @ t \<and> list_all (cmem C) w \<and> lo \<le> length w \<and> c = cp"
proof -
  from assms obtain k where k: "k \<in> set (rep_counts C lo hi g s)" and t: "t = drop k s" and c: "c = cp"
    by auto
  from k have lo: "lo \<le> k" and le: "k \<le> length (takeWhile (cmem C) s)"
    by (auto simp: set_rep_counts)
  from k have ks: "k \<le> length s" by (rule rep_counts_le_length)
  have "s = take k s @ t" using t by simp
  moreover have "list_all (cmem C) (take k s)" using le by (rule take_all_in_class)
  moreover have "lo \<le> length (take k s)" using lo ks by simp
  ultimately show ?thesis using c by blast
qed

lemma rmatch_Lit_D:
  "(p, t, c) \<in> set (rmatch (Lit l) prev s cp) \<Longrightarrow> s = l @ t \<and> c = cp"
  by (auto simp: prefix_def split: if_splits)

lemma rmatch_Cat_D:
  "x \<in> set (rmatch (Cat a b) prev s cp) \<Longrightarrow>
     \<exists>p t c. (p, t, c) \<in> set (rmatch a prev s cp) \<and> x \<in> set (rmatch b p t c)"
  by auto

lemma rmatch_BolM_D:
  "(p, t, c) \<in> set (rmatch BolM prev s cp) \<Longrightarrow> (prev = None \<or> prev = Some NL) \<and> t = s \<and> c = cp"
  by (auto split: if_splits)

lemma search_from_Some_pos:
  "search_from r prev s = Some m \<Longrightarrow>
     \<exists>pre suf. s = pre @ suf \<and> match_at r (if pre = [] then prev else Some (last pre)) suf = Some m"
proof (induction s arbitrary: prev)
  case Nil
  then show ?case by auto
next
  case (Cons c cs)
  show ?case
  proof (cases "match_at r prev (c # cs)")
    case None
    with Cons.prems have "search_from r (Some c) cs = Some m" by simp
    from Cons.IH [OF this] obtain pre suf where
      s: "cs = pre @ suf" and m: "match_at r (if pre = [] then Some c else Some (last pre)) suf = Some m"
      by blast
    have "c # cs = (c # pre) @ suf" using s by simp
    moreover have "match_at r (if c # pre = [] then prev else Some (last (c # pre))) suf = Some m"
      using m by (cases pre) auto
    ultimately show ?thesis by blast
  next
    case (Some a)
    with Cons.prems have "a = m" by simp
    with Some have "c # cs = [] @ (c # cs) \<and>
        match_at r (if ([]::string) = [] then prev else Some (last [])) (c # cs) = Some m" by simp
    then show ?thesis by blast
  qed
qed

subsection \<open>The pattern of a required field\<close>

lemma required_match_assigns:
  assumes "x \<in> set (rmatch (required_pattern f) prev s cp)"
  shows "(prev = None \<or> prev = Some NL) \<and>
         (\<exists>ws1 ws2 ws3 c rest. s = ws1 @ f @ ws2 @ ''='' @ ws3 @ c # rest \<and>
            list_all is_space ws1 \<and> list_all is_space ws2 \<and> list_all is_space ws3 \<and> c \<noteq> NL)"
proof -
  let ?r6 = "Cat (Rep CDot 1 None True) EolM"
  let ?r5 = "Cat (Rep CSpace 0 None True) ?r6"
  let ?r4 = "Cat (Lit ''='') ?r5"
  let ?r3 = "Cat (Rep CSpace 0 None True) ?r4"
  let ?r2 = "Cat (Lit f) ?r3"
  let ?r1 = "Cat (Rep CSpace 0 None True) ?r2"
  have x: "x \<in> set (rmatch (Cat BolM ?r1) prev s cp)"
    using assms unfolding required_pattern_def .
  from rmatch_Cat_D [OF x] obtain p0 t0 c0 where
    b: "(p0, t0, c0) \<in> set (rmatch BolM prev s cp)" and x1: "x \<in> set (rmatch ?r1 p0 t0 c0)" by blast
  from rmatch_BolM_D [OF b] have pv: "prev = None \<or> prev = Some NL" and t0: "t0 = s" by auto
  from rmatch_Cat_D [OF x1] obtain p1 t1 c1 where
    a1: "(p1, t1, c1) \<in> set (rmatch (Rep CSpace 0 None True) p0 t0 c0)"
    and x2: "x \<in> set (rmatch ?r2 p1 t1 c1)" by blast
  from rmatch_Rep_D [OF a1] obtain ws1 where w1: "t0 = ws1 @ t1" "list_all (cmem CSpace) ws1" by blast
  from rmatch_Cat_D [OF x2] obtain p2 t2 c2 where
    a2: "(p2, t2, c2) \<in> set (rmatch (Lit f) p1 t1 c1)" and x3: "x \<in> set (rmatch ?r3 p2 t2 c2)" by blast
  from rmatch_Lit_D [OF a2] have w2: "t1 = f @ t2" by simp
  from rmatch_Cat_D [OF x3] obtain p3 t3 c3 where
    a3: "(p3, t3, c3) \<in> set (rmatch (Rep CSpace 0 None True) p2 t2 c2)"
    and x4: "x \<in> set (rmatch ?r4 p3 t3 c3)" by blast
  from rmatch_Rep_D [OF a3] obtain ws2 where w3: "t2 = ws2 @ t3" "list_all (cmem CSpace) ws2" by blast
  from rmatch_Cat_D [OF x4] obtain p4 t4 c4 where
    a4: "(p4, t4, c4) \<in> set (rmatch (Lit ''='') p3 t3 c3)" and x5: "x \<in> set (rmatch ?r5 p4 t4 c4)" by blast
  from rmatch_Lit_D [OF a4] have w4: "t3 = ''='' @ t4" by simp
  from rmatch_Cat_D [OF x5] obtain p5 t5 c5 where
    a5: "(p5, t5, c5) \<in> set (rmatch (Rep CSpace 0 None True) p4 t4 c4)"
    and x6: "x \<in> set (rmatch ?r6 p5 t5 c5)" by blast
  from rmatch_Rep_D [OF a5] obtain ws3 where w5: "t4 = ws3 @ t5" "list_all (cmem CSpace) ws3" by blast
  from rmatch_Cat_D [OF x6] obtain p6 t6 c6 where
    a6: "(p6, t6, c6) \<in> set (rmatch (Rep CDot 1 None True) p5 t5 c5)" by blast
  from rmatch_Rep_D [OF a6] obtain w where w6: "t5 = w @ t6" "list_all (cmem CDot) w" "1 \<le> length w"
    by blast
  from w6 obtain c w' where w: "w = c # w'" by (cases w) auto
  with w6 have cn: "c \<noteq> NL" by simp
  have "s = ws1 @ f @ ws2 @ ''='' @ ws3 @ c # (w' @ t6)"
    using t0 w1 w2 w3 w4 w5 w6 w by simp
  moreover have "list_all is_space ws1" "list_all is_space ws2" "list_all is_space ws3"
    using w1 w3 w5 by (simp_all add: list_all_iff)
  ultimately show ?thesis using pv cn by blast
qed

lemma assigns_match:
  assumes sp: "list_all is_space ws1" "list_all is_space ws2" "list_all is_space ws3"
    and c: "c \<noteq> NL" and prev: "prev = None \<or> prev = Some NL"
  shows "rmatch (required_pattern f) prev (ws1 @ f @ ws2 @ ''='' @ ws3 @ c # rest) [] \<noteq> []"
proof -
  let ?w = "takeWhile (cmem CDot) (c # rest)" and ?d = "dropWhile (cmem CDot) (c # rest)"
  have s1: "\<forall>x\<in>set ws1. cmem CSpace x" and s2: "\<forall>x\<in>set ws2. cmem CSpace x"
    and s3: "\<forall>x\<in>set ws3. cmem CSpace x"
    using sp by (simp_all add: list_all_iff)
  have dots: "\<forall>x\<in>set ?w. cmem CDot x" by (auto dest: set_takeWhileD)
  have lw: "1 \<le> length ?w" using c by simp
  have "?d = [] \<or> hd ?d = NL" using hd_dropWhile [of "cmem CDot" "c # rest"] by auto
  then have e: "\<And>p. rmatch EolM p ?d [] \<noteq> []" by auto
  have z: "(0::nat) \<le> length ws1" "(0::nat) \<le> length ws2" "(0::nat) \<le> length ws3" by simp_all
  have "\<And>p. rmatch (Cat (Rep CSpace 0 None True) (Cat (Lit f) (Cat (Rep CSpace 0 None True)
               (Cat (Lit ''='') (Cat (Rep CSpace 0 None True) (Cat (Rep CDot 1 None True) EolM))))))
               p (ws1 @ f @ ws2 @ ''='' @ ws3 @ ?w @ ?d) [] \<noteq> []"
    by (intro Cat_Rep_nonempty Cat_Lit_nonempty e s1 s2 s3 dots lw z)
  then have w: "\<And>p. rmatch (Cat (Rep CSpace 0 None True) (Cat (Lit f) (Cat (Rep CSpace 0 None True)
               (Cat (Lit ''='') (Cat (Rep CSpace 0 None True) (Cat (Rep CDot 1 None True) EolM))))))
               p (ws1 @ f @ ws2 @ ''='' @ ws3 @ c # rest) [] \<noteq> []"
    by (simp only: takeWhile_dropWhile_id not_False_eq_True)
  have "(prev, ws1 @ f @ ws2 @ ''='' @ ws3 @ c # rest, [])
          \<in> set (rmatch BolM prev (ws1 @ f @ ws2 @ ''='' @ ws3 @ c # rest) [])"
    using prev by auto
  from rmatch_Cat_nonempty [OF this w] show ?thesis
    unfolding required_pattern_def .
qed

lemma required_search_iff:
  "re_search (required_pattern f) s \<noteq> None \<longleftrightarrow> assigns f s"
proof
  assume "re_search (required_pattern f) s \<noteq> None"
  then obtain m where "search_from (required_pattern f) None s = Some m"
    by (auto simp: re_search_def)
  from search_from_Some_pos [OF this] obtain pre suf where
    d: "s = pre @ suf"
    and m: "match_at (required_pattern f) (if pre = [] then None else Some (last pre)) suf = Some m"
    by blast
  let ?prev = "if pre = [] then None else Some (last pre)"
  from m have "rmatch (required_pattern f) ?prev suf [] \<noteq> []"
    by (auto simp: match_at_def)
  then obtain x where "x \<in> set (rmatch (required_pattern f) ?prev suf [])"
    by (cases "rmatch (required_pattern f) ?prev suf []") auto
  from required_match_assigns [OF this] obtain ws1 ws2 ws3 c rest where
    pv: "?prev = None \<or> ?prev = Some NL"
    and sf: "suf = ws1 @ f @ ws2 @ ''='' @ ws3 @ c # rest"
    and sp: "list_all is_space ws1" "list_all is_space ws2" "list_all is_space ws3" and c: "c \<noteq> NL"
    by blast
  from pv have "pre = [] \<or> last pre = NL" by (auto split: if_splits)
  with d sf sp c show "assigns f s" unfolding assigns_def by blast
next
  assume "assigns f s"
  then obtain pre ws1 ws2 ws3 c rest where
    s: "s = pre @ ws1 @ f @ ws2 @ ''='' @ ws3 @ c # rest" and p: "pre = [] \<or> last pre = NL"
    and sp: "list_all is_space ws1" "list_all is_space ws2" "list_all is_space ws3" and c: "c \<noteq> NL"
    unfolding assigns_def by blast
  let ?prev = "if pre = [] then None else Some (last pre)"
  have "?prev = None \<or> ?prev = Some NL" using p by auto
  from assigns_match [OF sp c this]
  have "match_at (required_pattern f) ?prev (ws1 @ f @ ws2 @ ''='' @ ws3 @ c # rest) \<noteq> None"
    by (simp only: match_at_eq_None simp_thms)
  from search_from_append [OF this] show "re_search (required_pattern f) s \<noteq> None"
    using s by (simp add: re_search_def)
qed

subsection \<open>Searching for a pattern that starts with a literal\<close>

lemma match_at_Lit_None:
  "\<not> prefix l s \<Longrightarrow> match_at (Cat (Lit l) b) prev s = None"
  by (simp add: match_at_def)

lemma search_skip_Lit:
  "\<forall>k<length pre. \<not> prefix l (drop k (pre @ s)) \<Longrightarrow>
   search_from (Cat (Lit l) b) prev (pre @ s) =
   search_from (Cat (Lit l) b) (if pre = [] then prev else Some (last pre)) s"
proof (induction pre arbitrary: prev)
  case Nil
  show ?case by simp
next
  case (Cons c pre)
  from Cons.prems have "\<not> prefix l (drop 0 ((c # pre) @ s))" by blast
  then have n: "match_at (Cat (Lit l) b) prev (c # pre @ s) = None"
    by (simp add: match_at_Lit_None)
  have "\<forall>k<length pre. \<not> prefix l (drop k (pre @ s))"
  proof (intro allI impI)
    fix k assume "k < length pre"
    then have "Suc k < length (c # pre)" by simp
    with Cons.prems have "\<not> prefix l (drop (Suc k) ((c # pre) @ s))" by blast
    then show "\<not> prefix l (drop k (pre @ s))" by simp
  qed
  from Cons.IH [OF this, of "Some c"] show ?case using n by simp
qed

lemma search_from_here:
  "match_at r prev s = Some m \<Longrightarrow> search_from r prev s = Some m"
  by (cases s) simp_all

lemma search_from_Nil_Lit:
  "l \<noteq> [] \<Longrightarrow> search_from (Cat (Lit l) b) prev [] = None"
  by (simp add: match_at_def)

lemma rmatch_Cat_Lit_eq:
  "rmatch (Cat (Lit l) b) prev (l @ s) cp = rmatch b (advance prev (l @ s) (length l)) s cp"
  by simp

lemma rep_counts_greedy:
  assumes "list_all (cmem C) w" and "s = [] \<or> \<not> cmem C (hd s)" and "lo \<le> length w"
  shows "rep_counts C lo None True (w @ s) = length w # rev [lo ..< length w]"
proof -
  have "takeWhile (cmem C) (w @ s) = w"
  proof (cases s)
    case Nil
    with assms(1) show ?thesis by (simp add: list_all_iff)
  next
    case (Cons x xs)
    with assms(2) have "\<not> cmem C x" by simp
    with assms(1) Cons show ?thesis by (simp add: list_all_iff takeWhile_tail)
  qed
  with assms(3) show ?thesis by (simp add: rep_counts_def Let_def)
qed

lemma Cat_Rep_greedy_last:
  assumes w: "list_all (cmem C) w" and s: "s = [] \<or> \<not> cmem C (hd s)" and lo: "lo \<le> length w"
    and fail: "\<And>k p. lo \<le> k \<Longrightarrow> k < length w \<Longrightarrow> rmatch b p (drop k w @ s) cp = []"
  shows "rmatch (Cat (Rep C lo None True) b) prev (w @ s) cp =
         rmatch b (advance prev (w @ s) (length w)) s cp"
proof -
  have "concat (map (\<lambda>k. rmatch b (advance prev (w @ s) k) (drop k (w @ s)) cp)
                  (rev [lo ..< length w])) = []"
    using fail by (auto simp: concat_eq_Nil_conv)
  then show ?thesis
    by (simp add: rep_counts_greedy [OF w s lo] o_def split_beta)
qed

subsection \<open>The pattern of a weight\<close>

lemma weight_digits_match:
  assumes ds: "ds \<noteq> []" "list_all is_digit ds" and r: "r = [] \<or> \<not> is_digit (hd r)"
  shows "\<exists>p rest. rmatch (Grp 1 (Rep CDigit 1 None True)) prev (ds @ r) [] = (p, r, [(1, ds)]) # rest"
proof -
  have w: "list_all (cmem CDigit) ds" using ds(2) by (simp add: list_all_iff)
  have s: "r = [] \<or> \<not> cmem CDigit (hd r)" using r by simp
  have lo: "Suc 0 \<le> length ds" using ds(1) by (simp add: Suc_le_eq)
  have rc: "rep_counts CDigit (Suc 0) None True (ds @ r) = length ds # rev [Suc 0 ..< length ds]"
    by (rule rep_counts_greedy [OF w s lo])
  show ?thesis
    by (simp add: rc)
qed

lemma digits_after_space_fail:
  assumes "list_all is_space ws" and "k < length ws"
  shows "rmatch (Grp 1 (Rep CDigit 1 None True)) p (drop k ws @ s) cp = []"
proof -
  from assms(2) obtain x xs where d: "drop k ws = x # xs" by (cases "drop k ws") auto
  then have "x \<in> set ws" by (metis in_set_dropD list.set_intros(1))
  with assms(1) have "is_space x" by (simp add: list_all_iff)
  then have "\<not> is_digit x" by (auto simp: is_space_def is_digit_def)
  then show ?thesis by (simp add: d rep_counts_def)
qed

lemma eq_after_space_fail:
  assumes "list_all is_space ws" and "k < length ws"
  shows "rmatch (Cat (Lit ''='') b) p (drop k ws @ s) cp = []"
proof -
  from assms(2) obtain x xs where d: "drop k ws = x # xs" by (cases "drop k ws") auto
  then have "x \<in> set ws" by (metis in_set_dropD list.set_intros(1))
  with assms(1) have "is_space x" by (simp add: list_all_iff)
  then have "x \<noteq> CHR ''=''" by (auto simp: is_space_def)
  then show ?thesis by (simp add: d)
qed

lemma weight_match_here:
  assumes sp: "list_all is_space ws1" "list_all is_space ws2"
    and ds: "ds \<noteq> []" "list_all is_digit ds" and r: "r = [] \<or> \<not> is_digit (hd r)"
  shows "\<exists>m. match_at weight_pattern prev (''weight'' @ ws1 @ ''='' @ ws2 @ ds @ r) = Some m \<and>
             group m 1 = ds"
proof -
  let ?g = "Grp 1 (Rep CDigit 1 None True)"
  let ?r3 = "Cat (Rep CSpace 0 None True) ?g"
  let ?r2 = "Cat (Lit ''='') ?r3"
  let ?r1 = "Cat (Rep CSpace 0 None True) ?r2"
  have c1: "list_all (cmem CSpace) ws1" and c2: "list_all (cmem CSpace) ws2"
    using sp by (simp_all add: list_all_iff)
  have d0: "ds @ r = [] \<or> \<not> cmem CSpace (hd (ds @ r))"
  proof -
    from ds obtain x xs where "ds = x # xs" "is_digit x" by (cases ds) auto
    then show ?thesis by (auto simp: is_space_def is_digit_def)
  qed
  have e0: "''='' @ ws2 @ ds @ r = [] \<or> \<not> cmem CSpace (hd (''='' @ ws2 @ ds @ r))"
    by (simp add: is_space_def)
  have s3: "rmatch ?r3 p (ws2 @ ds @ r) [] = rmatch ?g (advance p (ws2 @ ds @ r) (length ws2)) (ds @ r) []"
    for p
  proof (rule Cat_Rep_greedy_last [OF c2 d0])
    show "0 \<le> length ws2" by simp
  next
    fix k q assume "0 \<le> k" and "k < length ws2"
    with sp(2) show "rmatch ?g q (drop k ws2 @ ds @ r) [] = []"
      by (intro digits_after_space_fail)
  qed
  have s1: "rmatch ?r1 p (ws1 @ ''='' @ ws2 @ ds @ r) [] =
              rmatch ?r2 (advance p (ws1 @ ''='' @ ws2 @ ds @ r) (length ws1)) (''='' @ ws2 @ ds @ r) []"
    for p
  proof (rule Cat_Rep_greedy_last [OF c1 e0])
    show "0 \<le> length ws1" by simp
  next
    fix k q assume "0 \<le> k" and "k < length ws1"
    with sp(1) show "rmatch ?r2 q (drop k ws1 @ ''='' @ ws2 @ ds @ r) [] = []"
      by (intro eq_after_space_fail)
  qed
  define p1 where "p1 = advance prev (''weight'' @ ws1 @ ''='' @ ws2 @ ds @ r) (length ''weight'')"
  define p2 where "p2 = advance (advance p1 (ws1 @ ''='' @ ws2 @ ds @ r) (length ws1))
                          (''='' @ ws2 @ ds @ r) (length ''='')"
  have e1: "rmatch weight_pattern prev (''weight'' @ ws1 @ ''='' @ ws2 @ ds @ r) [] =
           rmatch ?r1 p1 (ws1 @ ''='' @ ws2 @ ds @ r) []"
    unfolding weight_pattern_def p1_def by (rule rmatch_Cat_Lit_eq)
  have e2: "rmatch ?r2 (advance p1 (ws1 @ ''='' @ ws2 @ ds @ r) (length ws1)) (''='' @ ws2 @ ds @ r) [] =
           rmatch ?r3 p2 (ws2 @ ds @ r) []"
    unfolding p2_def by (rule rmatch_Cat_Lit_eq)
  from weight_digits_match [OF ds r] obtain p rest where
    e3: "rmatch ?g (advance p2 (ws2 @ ds @ r) (length ws2)) (ds @ r) [] = (p, r, [(1, ds)]) # rest"
    by blast
  have "rmatch weight_pattern prev (''weight'' @ ws1 @ ''='' @ ws2 @ ds @ r) [] = (p, r, [(1, ds)]) # rest"
    by (simp only: e1 s1 e2 s3 e3)
  then show ?thesis by (simp add: match_at_def group_def)
qed

lemma prefix_within:
  assumes "prefix w (drop k (a @ w @ rest))" and "k \<le> length a"
  shows "prefix w (drop k (a @ w))"
proof -
  have d: "drop k (a @ w @ rest) = drop k (a @ w) @ rest" using assms(2) by simp
  from assms(1) obtain z where z: "drop k (a @ w) @ rest = w @ z"
    unfolding d prefix_def by blast
  have l: "length w \<le> length (drop k (a @ w))" using assms(2) by simp
  have "take (length w) (drop k (a @ w) @ rest) = take (length w) (w @ z)"
    by (simp only: z)
  with l have "take (length w) (drop k (a @ w)) = w" by simp
  then have "prefix (take (length w) (drop k (a @ w))) (drop k (a @ w)) \<Longrightarrow> ?thesis"
    by simp
  then show ?thesis using take_is_prefix by blast
qed

lemma weight_search_block:
  assumes nb: "\<not> starts_before ''weight'' a"
    and sp: "list_all is_space ws1" "list_all is_space ws2"
    and ds: "ds \<noteq> []" "list_all is_digit ds" and r: "r = [] \<or> \<not> is_digit (hd r)"
  shows "\<exists>m. re_search weight_pattern (a @ ''weight'' @ ws1 @ ''='' @ ws2 @ ds @ r) = Some m \<and>
             group m 1 = ds"
proof -
  let ?s = "''weight'' @ ws1 @ ''='' @ ws2 @ ds @ r"
  let ?b = "Cat (Rep CSpace 0 None True) (Cat (Lit ''='')
              (Cat (Rep CSpace 0 None True) (Grp 1 (Rep CDigit 1 None True))))"
  have wp: "weight_pattern = Cat (Lit ''weight'') ?b" by (simp add: weight_pattern_def)
  have "\<forall>k<length a. \<not> prefix ''weight'' (drop k (a @ ?s))"
  proof (intro allI impI notI)
    fix k assume k: "k < length a" and p: "prefix ''weight'' (drop k (a @ ?s))"
    have "prefix ''weight'' (drop k (a @ ''weight'' @ (ws1 @ ''='' @ ws2 @ ds @ r)))"
      using p by simp
    from prefix_within [OF this] k have "prefix ''weight'' (drop k (a @ ''weight''))" by simp
    with k have "starts_before ''weight'' a"
      unfolding starts_before_def list_ex_iff by (intro bexI [of _ k]) simp_all
    with nb show False by simp
  qed
  from search_skip_Lit [OF this, of ?b None]
  have sk: "search_from weight_pattern None (a @ ?s) =
            search_from weight_pattern (if a = [] then None else Some (last a)) ?s"
    by (simp only: wp)
  from weight_match_here [OF sp ds r, of "if a = [] then None else Some (last a)"] obtain m where
    m: "match_at weight_pattern (if a = [] then None else Some (last a)) ?s = Some m"
    and g: "group m 1 = ds" by blast
  from search_from_here [OF m] sk g show ?thesis by (simp add: re_search_def)
qed

lemma weight_search_none:
  assumes "\<not> sublist ''weight'' u"
  shows "re_search weight_pattern u = None"
proof (rule ccontr)
  assume "re_search weight_pattern u \<noteq> None"
  then obtain m where "search_from weight_pattern None u = Some m"
    by (auto simp: re_search_def)
  from search_from_Some_pos [OF this] obtain pre suf where
    d: "u = pre @ suf"
    and m: "match_at weight_pattern (if pre = [] then None else Some (last pre)) suf = Some m"
    by blast
  have "prefix ''weight'' suf"
  proof (rule ccontr)
    assume "\<not> prefix ''weight'' suf"
    then have "match_at weight_pattern (if pre = [] then None else Some (last pre)) suf = None"
      unfolding weight_pattern_def by (rule match_at_Lit_None)
    with m show False by simp
  qed
  then obtain z where "suf = ''weight'' @ z" by (auto simp: prefix_def)
  with d have "u = pre @ ''weight'' @ z" by simp
  then have "sublist ''weight'' u" unfolding sublist_def by blast
  with assms show False by simp
qed

section \<open>Properties of the environment validator\<close>

text \<open>
  Claim C5, as the code has it: \<open>check_command\<close> never raises.  A binary that is
  absent from the path is reported with \<open>found\<close> false and the message
  \<open>Not found in PATH\<close>.  A binary that is on the path and whose version command times
  out or cannot be launched is reported with \<open>found\<close> true, the version \<open>Unknown\<close>
  and a message that carries the text of the exception.
\<close>

theorem check_command_never_raises:
  "\<exists>tc. check_command e cmd va req = Inr tc \<and> tool tc = cmd \<and> found tc = which e cmd \<and>
     (which e cmd \<longrightarrow> (\<forall>msg. run e [cmd, va] = Inl (Raised msg) \<longrightarrow>
         version tc = Some ''Unknown'' \<and>
         ToolCheck.message tc = Some (''Found but version check failed: '' @ msg))) \<and>
     (\<not> which e cmd \<longrightarrow> version tc = None \<and> ToolCheck.message tc = Some ''Not found in PATH'')"
  by (auto simp: check_command_def Let_def split: sum.splits exn.splits)

text \<open>The theorem at a timed-out probe and at a missing binary.\<close>

theorem check_command_never_raises_witness:
  "(\<exists>tc. check_command env_timeout ''hugo'' ''version'' True = Inr tc \<and> found tc \<and>
      version tc = Some ''Unknown'' \<and>
      ToolCheck.message tc = Some ''Found but version check failed: timed out after 5 seconds'') \<and>
   (\<exists>tc. check_command env_no_hugo ''hugo'' ''version'' True = Inr tc \<and> \<not> found tc \<and>
      ToolCheck.message tc = Some ''Not found in PATH'')"
  using check_command_never_raises [of env_timeout "''hugo''" "''version''" True]
        check_command_never_raises [of env_no_hugo "''hugo''" "''version''" True]
  by (auto simp: env_timeout_def env_no_hugo_def)

text \<open>
  The claim says that a timeout is reported with \<open>found\<close> false; the probe of a
  binary that is on the path and times out has \<open>found\<close> true.
\<close>

theorem check_command_timeout_counterexample:
  "run env_timeout [''hugo'', ''version''] = Inl (Raised ''timed out after 5 seconds'') \<and>
   check_command env_timeout ''hugo'' ''version'' True =
     Inr \<lparr>tool = ''hugo'', required = True, found = True, version = Some ''Unknown'',
          message = Some ''Found but version check failed: timed out after 5 seconds''\<rparr>"
  by (simp add: check_command_def env_timeout_def)

text \<open>The results of the single checks and of the whole validation.\<close>

lemma check_command_not_found:
  "\<not> which e cmd \<Longrightarrow> check_command e cmd va req =
     Inr \<lparr>tool = cmd, required = req, found = False, version = None, message = Some ''Not found in PATH''\<rparr>"
  by (simp add: check_command_def)

lemma check_command_Inr: "\<exists>tc. check_command e cmd va req = Inr tc \<and> found tc = which e cmd"
  by (auto simp: check_command_def Let_def split: sum.splits exn.splits)

lemma check_hugo_missing: "\<not> which e ''hugo'' \<Longrightarrow> check_hugo_version e = Inr (False, ''Hugo not installed'')"
  by (simp add: check_hugo_version_def check_command_not_found)

lemma check_hugo_Inr: "\<exists>ok msg. check_hugo_version e = Inr (ok, msg)"
  using check_command_Inr [of e "''hugo''" "''version''" True]
  by (auto simp: check_hugo_version_def)

lemma env_validate_result:
  "\<exists>hugo_ok hugo_msg go_check git_check.
     check_hugo_version e = Inr (hugo_ok, hugo_msg) \<and>
     check_command e ''go'' ''version'' True = Inr go_check \<and>
     check_command e ''git'' ''version'' True = Inr git_check \<and>
     env_validate e v =
       Inr (hugo_ok \<and> found go_check \<and> fst (check_python_version e) \<and> found git_check
              \<and> fst (check_git_config e),
            v\<lparr>checks := checks v @ [go_check, git_check]\<rparr>)"
proof -
  obtain hugo_ok hugo_msg where h: "check_hugo_version e = Inr (hugo_ok, hugo_msg)"
    using check_hugo_Inr by blast
  obtain go_check where g: "check_command e ''go'' ''version'' True = Inr go_check"
    using check_command_Inr by blast
  obtain git_check where t: "check_command e ''git'' ''version'' True = Inr git_check"
    using check_command_Inr by blast
  obtain make_check where m: "check_command e ''make'' ''--version'' False = Inr make_check"
    using check_command_Inr by blast
  show ?thesis
    using h g t m by (simp add: env_validate_def Let_def split_beta)
qed

lemma check_git_config_no_email:
  "\<not> email_configured e \<Longrightarrow> fst (check_git_config e) = False"
  by (auto simp: check_git_config_def email_configured_def Let_def split: sum.splits exn.splits)

text \<open>
  Claim C8: if \<open>hugo\<close> is absent from the path, the probe of \<open>hugo\<close> reports
  \<open>found\<close> false, the check of the Hugo version fails, the validation fails and the
  exit code is 1.  If \<open>git config user.email\<close> gives no value, the check of the Git
  configuration fails, and so does the validation, with exit code 1; in a git
  repository with \<open>user.name\<close> set the message is that of the missing configuration.
\<close>

theorem env_probe_failures:
  "(\<not> which e ''hugo'' \<longrightarrow>
      (\<exists>tc. check_command e ''hugo'' ''version'' True = Inr tc \<and> \<not> found tc) \<and>
      check_hugo_version e = Inr (False, ''Hugo not installed'') \<and>
      (\<exists>v'. env_validate e v = Inr (False, v')) \<and>
      env_main e root = Inr 1) \<and>
   (\<not> email_configured e \<longrightarrow>
      fst (check_git_config e) = False \<and>
      (\<exists>v'. env_validate e v = Inr (False, v')) \<and>
      env_main e root = Inr 1) \<and>
   (\<forall>r n em. run e [''git'', ''rev-parse'', ''--git-dir''] = Inr r \<and> returncode r = 0 \<and>
        run e [''git'', ''config'', ''user.name''] = Inr n \<and> returncode n = 0 \<and>
        strip (stdout n) \<noteq> [] \<and>
        run e [''git'', ''config'', ''user.email''] = Inr em \<and>
        (returncode em \<noteq> 0 \<or> strip (stdout em) = []) \<longrightarrow>
      check_git_config e = (False, ''Git user.name or user.email not configured''))"
proof (intro conjI impI allI)
  assume h: "\<not> which e ''hugo''"
  show "\<exists>tc. check_command e ''hugo'' ''version'' True = Inr tc \<and> \<not> found tc"
    using h by (simp add: check_command_not_found)
  show hv: "check_hugo_version e = Inr (False, ''Hugo not installed'')"
    using h by (rule check_hugo_missing)
  show "\<exists>v'. env_validate e v = Inr (False, v')"
    using env_validate_result [of e v] hv by auto
  show "env_main e root = Inr 1"
    using env_validate_result [of e "\<lparr>checks = [], repo_root = root\<rparr>"] hv
    by (auto simp: env_main_def)
next
  assume h: "\<not> email_configured e"
  show g: "fst (check_git_config e) = False"
    using h by (rule check_git_config_no_email)
  show "\<exists>v'. env_validate e v = Inr (False, v')"
    using env_validate_result [of e v] g by auto
  show "env_main e root = Inr 1"
    using env_validate_result [of e "\<lparr>checks = [], repo_root = root\<rparr>"] g
    by (auto simp: env_main_def)
next
  fix r n em
  assume "run e [''git'', ''rev-parse'', ''--git-dir''] = Inr r \<and> returncode r = 0 \<and>
        run e [''git'', ''config'', ''user.name''] = Inr n \<and> returncode n = 0 \<and>
        strip (stdout n) \<noteq> [] \<and>
        run e [''git'', ''config'', ''user.email''] = Inr em \<and>
        (returncode em \<noteq> 0 \<or> strip (stdout em) = [])"
  then show "check_git_config e = (False, ''Git user.name or user.email not configured'')"
    by (auto simp: check_git_config_def Let_def)
qed

text \<open>The theorem at an environment without \<open>hugo\<close> and at one without \<open>user.email\<close>.\<close>

theorem env_probe_failures_witness:
  "\<not> which env_no_hugo ''hugo'' \<and> env_main env_no_hugo ''/repo'' = Inr 1 \<and>
   \<not> email_configured env_no_email \<and> env_main env_no_email ''/repo'' = Inr 1 \<and>
   check_git_config env_no_email = (False, ''Git user.name or user.email not configured'')"
proof -
  have a: "\<not> which env_no_hugo ''hugo''" by (simp add: env_no_hugo_def)
  have b: "\<not> email_configured env_no_email"
    by (simp add: env_no_email_def email_configured_def)
  have c: "strip ''Python 3.11 extended'' \<noteq> []" by code_simp
  have d: "strip [] = []" by code_simp
  show ?thesis
    using a b env_probe_failures [of env_no_hugo "\<lparr>checks = [], repo_root = ''/repo''\<rparr>" "''/repo''"]
      env_probe_failures [of env_no_email "\<lparr>checks = [], repo_root = ''/repo''\<rparr>" "''/repo''"]
    apply (simp only: simp_thms)
    apply (simp add: env_no_email_def c d)
    done
qed

section \<open>The results of the configuration validator\<close>

text \<open>
  Every rule appends its findings to the results and leaves the text alone, so the
  results of a run that returns are the findings of the five rules, in their order.
  The run raises exactly when the conversion of a menu weight does.
\<close>

lemma add_result_simps [simp]:
  "results (add_result r v) = results v @ [r]"
  "config_content (add_result r v) = config_content v"
  "config_path (add_result r v) = config_path v"
  by (simp_all add: add_result_def)

lemma length_card_distinct: "length ws = card (set ws) \<longleftrightarrow> distinct ws"
  using distinct_card [of ws] card_distinct [of ws] by auto

lemma validate_required_fields_results:
  "results (validate_required_fields v) =
     results v @ map (required_field_result (config_content v)) required_fields"
  by (simp add: validate_required_fields_def required_fields_def)

lemma validate_required_fields_content [simp]:
  "config_content (validate_required_fields v) = config_content v"
  by (simp add: validate_required_fields_def required_fields_def)

lemma validate_security_settings_results:
  "results (validate_security_settings v) =
     results v @
     (if contains ''unsafe = true'' (config_content v)
      then [\<lparr>passed = True,
             message = ''Unsafe HTML rendering enabled - ensure content is trusted'',
             severity = ''warning''\<rparr>] else []) @
     (if contains ''rel='' (config_content v)
         \<and> (contains ''noreferrer'' (config_content v) \<or> contains ''noopener'' (config_content v))
      then [\<lparr>passed = True,
             message = ''External links have security attributes (noreferrer/noopener)'',
             severity = ''info''\<rparr>] else [])"
  by (simp add: validate_security_settings_def Let_def)

lemma validate_security_settings_content [simp]:
  "config_content (validate_security_settings v) = config_content v"
  by (simp add: validate_security_settings_def Let_def)

lemma validate_defensive_defaults_results:
  "results (validate_defensive_defaults v) =
     results v @ map (defensive_default_result (config_content v)) defensive_checks"
  by (simp add: validate_defensive_defaults_def defensive_checks_def)

lemma validate_defensive_defaults_content [simp]:
  "config_content (validate_defensive_defaults v) = config_content v"
  by (simp add: validate_defensive_defaults_def defensive_checks_def)

lemma validate_menu_structure_Inr:
  "menu_weights (config_content v) = Inr ws \<Longrightarrow>
   validate_menu_structure v = Inr (v\<lparr>results := results v @ menu_findings ws\<rparr>)"
  by (simp add: validate_menu_structure_def menu_findings_def length_card_distinct add_result_def)

lemma validate_menu_structure_Inl:
  "menu_weights (config_content v) = Inl e \<Longrightarrow> validate_menu_structure v = Inl e"
  by (simp add: validate_menu_structure_def)

lemma validate_accessibility_results:
  "results (validate_accessibility v) =
     results v @
     (if contains ''languageCode'' (config_content v)
         \<or> contains ''defaultContentLanguage'' (config_content v)
      then [\<lparr>passed = True,
             message = ''Language configuration present for accessibility'',
             severity = ''info''\<rparr>] else []) @
     (if re_search search_type_pattern (config_content v) \<noteq> None
      then [\<lparr>passed = True,
             message = ''Search functionality configured (enhances accessibility)'',
             severity = ''info''\<rparr>] else [])"
  by (simp add: validate_accessibility_def Let_def)

lemma validate_accessibility_content [simp]:
  "config_content (validate_accessibility v) = config_content v"
  by (simp add: validate_accessibility_def Let_def)

lemma rule_findings_required:
  "results (validate_required_fields v) = results v @ rule_findings validate_required_fields (config_content v)"
  by (simp add: rule_findings_def validate_required_fields_results)

lemma rule_findings_security:
  "results (validate_security_settings v) = results v @ rule_findings validate_security_settings (config_content v)"
  by (simp add: rule_findings_def validate_security_settings_results)

lemma rule_findings_defaults:
  "results (validate_defensive_defaults v) = results v @ rule_findings validate_defensive_defaults (config_content v)"
  by (simp add: rule_findings_def validate_defensive_defaults_results)

lemma rule_findings_accessibility:
  "results (validate_accessibility v) = results v @ rule_findings validate_accessibility (config_content v)"
  by (simp add: rule_findings_def validate_accessibility_results)

lemma validate_Readable_Inl:
  assumes "menu_weights txt = Inl e"
  shows "validate (Readable txt) v = Inl e"
proof -
  let ?v3 = "validate_defensive_defaults (validate_security_settings (validate_required_fields
               (v\<lparr>config_content := txt\<rparr>)))"
  have "menu_weights (config_content ?v3) = Inl e" using assms by simp
  then have "validate_menu_structure ?v3 = Inl e" by (rule validate_menu_structure_Inl)
  then show ?thesis by (simp add: validate_def load_config_def Let_def)
qed

lemma validate_Readable_Inr:
  assumes "menu_weights txt = Inr ws"
  shows "\<exists>v'. validate (Readable txt) v =
                 Inr (\<not> has_errors (results v @ run_findings txt ws), v') \<and>
              results v' = results v @ run_findings txt ws"
proof -
  define v3 where "v3 = validate_defensive_defaults (validate_security_settings
                          (validate_required_fields (v\<lparr>config_content := txt\<rparr>)))"
  define v4 where "v4 = v3\<lparr>results := results v3 @ menu_findings ws\<rparr>"
  define v5 where "v5 = validate_accessibility v4"
  have c3: "config_content v3 = txt" by (simp add: v3_def)
  have r3: "results v3 = results v @ rule_findings validate_required_fields txt
              @ rule_findings validate_security_settings txt
              @ rule_findings validate_defensive_defaults txt"
    unfolding v3_def
    by (subst rule_findings_defaults, subst rule_findings_security, subst rule_findings_required)
       simp
  have c4: "config_content v4 = txt" by (simp add: v4_def c3)
  have r4: "results v4 = results v3 @ menu_findings ws" by (simp add: v4_def)
  have r5: "results v5 = results v4 @ rule_findings validate_accessibility txt"
    unfolding v5_def by (subst rule_findings_accessibility) (simp only: c4)
  have rs: "results v5 = results v @ run_findings txt ws"
    by (simp only: r5 r4 r3 run_findings_def append_assoc)
  have "menu_weights (config_content v3) = Inr ws" using assms c3 by simp
  then have "validate_menu_structure v3 = Inr v4"
    unfolding v4_def by (rule validate_menu_structure_Inr)
  then have "validate (Readable txt) v = Inr (\<not> has_errors (results v5), v5)"
    by (simp add: validate_def load_config_def Let_def v3_def [symmetric] v5_def)
  with rs show ?thesis by simp
qed

lemma validate_load_failure:
  "validate Missing v =
     Inr (False, add_result \<lparr>passed = False,
                   message = ''Configuration file not found: '' @ config_path v,
                   severity = ''error''\<rparr> v)"
  "validate (Unreadable e) v =
     Inr (False, add_result \<lparr>passed = False,
                   message = ''Failed to read config: '' @ e,
                   severity = ''error''\<rparr> v)"
  by (simp_all add: validate_def load_config_def)

lemma config_main_Inl:
  "menu_weights txt = Inl e \<Longrightarrow> config_main p (Readable txt) = Inl e"
  by (simp add: config_main_def validate_Readable_Inl)

lemma config_main_Inr:
  assumes "menu_weights txt = Inr ws"
  shows "\<exists>v'. config_main p (Readable txt) =
                 Inr (if has_errors (run_findings txt ws) then 1 else 0, v') \<and>
              results v' = run_findings txt ws"
proof -
  from validate_Readable_Inr [OF assms, of "ConfigValidator_init p"] obtain v' where
    "validate (Readable txt) (ConfigValidator_init p) =
       Inr (\<not> has_errors (results (ConfigValidator_init p) @ run_findings txt ws), v')"
    and "results v' = results (ConfigValidator_init p) @ run_findings txt ws" by blast
  then show ?thesis by (simp add: config_main_def ConfigValidator_init_def)
qed

lemma findings_required:
  "rule_findings validate_required_fields txt = map (required_field_result txt) required_fields"
  by (simp add: rule_findings_def validate_required_fields_results)

lemma other_findings_not_error:
  "r \<in> set (rule_findings validate_security_settings txt @ rule_findings validate_defensive_defaults txt
            @ menu_findings ws @ rule_findings validate_accessibility txt)
   \<Longrightarrow> ValidationResult.severity r \<noteq> ''error''"
  by (auto simp: rule_findings_def validate_security_settings_results
      validate_defensive_defaults_results menu_findings_def
      validate_accessibility_results defensive_checks_def defensive_default_result_def
      split: if_splits)

lemma other_findings_not_duplicate:
  "r \<in> set (rule_findings validate_required_fields txt @ rule_findings validate_security_settings txt
            @ rule_findings validate_defensive_defaults txt @ rule_findings validate_accessibility txt)
   \<Longrightarrow> ValidationResult.message r \<noteq> ''Duplicate menu weights found - may cause ordering issues''"
  by (auto simp: rule_findings_def validate_security_settings_results
      validate_defensive_defaults_results validate_required_fields_results
      validate_accessibility_results defensive_checks_def defensive_default_result_def
      required_fields_def required_field_result_def
      split: if_splits)

lemma required_missing_result:
  "re_search (required_pattern field) txt = None \<Longrightarrow>
   required_field_result txt (field, reason) =
     \<lparr>passed = False,
      message = ''Missing required field '' @ [SQ] @ field @ [SQ] @ '': '' @ reason,
      severity = ''error''\<rparr>"
  by (simp add: required_field_result_def)

lemma required_present_result:
  "re_search (required_pattern field) txt \<noteq> None \<Longrightarrow>
   required_field_result txt (field, reason) =
     \<lparr>passed = True,
      message = ''Required field '' @ [SQ] @ field @ [SQ] @ '' is present'',
      severity = ''info''\<rparr>"
  by (simp add: required_field_result_def)

section \<open>Properties of the content validator\<close>

text \<open>The checks of one file only append issues of that file, none of severity error.\<close>

lemma add_issue_simps [simp]:
  "issues (add_issue i v) = issues v @ [i]"
  "stats (add_issue i v) = stats v"
  "content_dir (add_issue i v) = content_dir v"
  by (simp_all add: add_issue_def)

lemma extends_issues_refl [simp]: "extends_issues P v v"
  by (simp add: extends_issues_def)

lemma extends_issues_trans:
  "extends_issues P u v \<Longrightarrow> extends_issues P v w \<Longrightarrow> extends_issues P u w"
  by (auto simp: extends_issues_def)

lemma extends_issues_add: "P i \<Longrightarrow> extends_issues P v (add_issue i v)"
  by (simp add: extends_issues_def)

lemma extends_issues_stats [simp]: "extends_issues P v (v\<lparr>stats := s\<rparr>)"
  by (simp add: extends_issues_def)

lemma extends_issues_foldl:
  assumes "\<And>w x. extends_issues P w (f w x)"
  shows "extends_issues P v (foldl f v xs)"
proof (induction xs arbitrary: v)
  case Nil
  show ?case by simp
next
  case (Cons x xs)
  have "extends_issues P v (f v x)" by (rule assms)
  moreover have "extends_issues P (f v x) (foldl f (f v x) xs)" by (rule Cons.IH)
  ultimately show ?case by (simp add: extends_issues_trans)
qed

lemma extends_issues_foldl_fst:
  assumes "\<And>st x. extends_issues P (fst st) (fst (f st x))"
  shows "extends_issues P (fst st) (fst (foldl f st xs))"
proof (induction xs arbitrary: st)
  case Nil
  show ?case by simp
next
  case (Cons x xs)
  have "extends_issues P (fst st) (fst (f st x))" by (rule assms)
  moreover have "extends_issues P (fst (f st x)) (fst (foldl f (f st x) xs))" by (rule Cons.IH)
  ultimately show ?case by (simp add: extends_issues_trans)
qed

lemma check_frontmatter_extends:
  "extends_issues (advisory_for fp) v (check_frontmatter fp content lines v)"
  by (simp add: check_frontmatter_def extends_issues_add advisory_for_def)

lemma check_link_extends:
  "extends_issues (advisory_for fp) v (check_link fp n m v)"
  by (simp add: check_link_def Let_def extends_issues_def advisory_for_def)

lemma check_links_extends:
  "extends_issues (advisory_for fp) v (check_links fp content lines v)"
  unfolding check_links_def
  by (intro extends_issues_foldl) (simp add: split_beta extends_issues_foldl check_link_extends)

lemma check_headings_extends:
  "extends_issues (advisory_for fp) v (check_headings fp content lines v)"
proof -
  have "\<And>st h. extends_issues (advisory_for fp) (fst st) (fst (heading_step fp st h))"
    by (simp add: heading_step_def split_beta extends_issues_add advisory_for_def)
  from extends_issues_foldl_fst [of "advisory_for fp" "heading_step fp" "(v, 0)", OF this]
  show ?thesis by (simp add: check_headings_def Let_def)
qed

lemma check_code_blocks_extends:
  "extends_issues (advisory_for fp) v (check_code_blocks fp content lines v)"
proof -
  have "\<And>st ln. extends_issues (advisory_for fp) (fst st) (fst (code_block_step fp st ln))"
    by (simp add: code_block_step_def split_beta Let_def extends_issues_add advisory_for_def)
  from extends_issues_foldl_fst [of "advisory_for fp" "code_block_step fp" "(v, False, 0)", OF this]
  show ?thesis by (simp add: check_code_blocks_def)
qed

lemma check_image_extends:
  "extends_issues (advisory_for fp) v (check_image fp n m v)"
  by (simp add: check_image_def Let_def extends_issues_def advisory_for_def)

lemma check_accessibility_extends:
  "extends_issues (advisory_for fp) v (check_accessibility fp content lines v)"
  unfolding check_accessibility_def
  by (intro extends_issues_foldl) (simp add: split_beta extends_issues_foldl check_image_extends)

lemma validate_file_unreadable:
  "read_text fs fp = Inl (Raised e) \<Longrightarrow> validate_file fs fp v = add_issue (read_error fp e) v"
  by (simp add: validate_file_def read_error_def)

lemma validate_file_readable:
  assumes "read_text fs fp = Inr content"
  shows "extends_issues (advisory_for fp) v (validate_file fs fp v)"
proof -
  let ?ls = "split_on NL content"
  let ?v0 = "v\<lparr>stats := (stats v)\<lparr>files_checked := files_checked (stats v) + 1\<rparr>\<rparr>"
  let ?v1 = "check_frontmatter fp content ?ls ?v0"
  let ?v2 = "check_links fp content ?ls ?v1"
  let ?v3 = "check_headings fp content ?ls ?v2"
  let ?v4 = "check_code_blocks fp content ?ls ?v3"
  have e0: "extends_issues (advisory_for fp) v ?v0" by simp
  have e1: "extends_issues (advisory_for fp) ?v0 ?v1" by (rule check_frontmatter_extends)
  have e2: "extends_issues (advisory_for fp) ?v1 ?v2" by (rule check_links_extends)
  have e3: "extends_issues (advisory_for fp) ?v2 ?v3" by (rule check_headings_extends)
  have e4: "extends_issues (advisory_for fp) ?v3 ?v4" by (rule check_code_blocks_extends)
  have e5: "extends_issues (advisory_for fp) ?v4 (check_accessibility fp content ?ls ?v4)"
    by (rule check_accessibility_extends)
  have "extends_issues (advisory_for fp) v (check_accessibility fp content ?ls ?v4)"
    by (rule extends_issues_trans [OF extends_issues_trans [OF extends_issues_trans
          [OF extends_issues_trans [OF extends_issues_trans [OF e0 e1] e2] e3] e4] e5])
  then show ?thesis
    using assms by (simp add: validate_file_def Let_def)
qed

lemma validate_file_extends:
  "extends_issues (\<lambda>i. file_path i = fp) v (validate_file fs fp v)"
proof (cases "read_text fs fp")
  case (Inl x)
  then obtain e where "read_text fs fp = Inl (Raised e)" by (cases x) simp
  then show ?thesis
    by (simp add: validate_file_unreadable extends_issues_def read_error_def)
next
  case (Inr content)
  from validate_file_readable [OF this, of v] show ?thesis
    by (auto simp: extends_issues_def advisory_for_def list_all_iff)
qed

subsection \<open>The heading rule\<close>

lemma heading_caps:
  "(p, t, c) \<in> set (rmatch heading_pattern prev line []) \<Longrightarrow>
     \<exists>k g. 1 \<le> k \<and> k \<le> 6 \<and> k \<le> length line \<and> c = [(2, g), (1, take k line)]"
proof -
  assume "(p, t, c) \<in> set (rmatch heading_pattern prev line [])"
  then obtain k g where k: "k \<in> set (rep_counts (CIn ''#'') 1 (Some 6) True line)"
    and c: "c = [(2, g), (1, take (length line - length (drop k line)) line)]"
    by (auto simp: heading_pattern_def split: if_splits)
  from k have "1 \<le> k" "k \<le> 6" by (auto simp: set_rep_counts)
  moreover from k have "k \<le> length line" by (rule rep_counts_le_length)
  moreover from this c have "c = [(2, g), (1, take k line)]" by simp
  ultimately show ?thesis by blast
qed

lemma heading_level:
  assumes "re_match heading_pattern line = Some m"
  shows "1 \<le> length (group m 1) \<and> length (group m 1) \<le> 6"
proof -
  from assms obtain p t c rest where r: "rmatch heading_pattern None line [] = (p, t, c) # rest"
    and m: "m_caps m = c"
    by (auto simp: re_match_def match_at_def split: list.splits)
  from r have "(p, t, c) \<in> set (rmatch heading_pattern None line [])" by simp
  from heading_caps [OF this] obtain k g where
    "1 \<le> k" "k \<le> 6" "k \<le> length line" "c = [(2, g), (1, take k line)]" by blast
  with m show ?thesis by (simp add: group_def)
qed

lemma find_headings_levels_aux:
  "\<forall>h\<in>set acc. 1 \<le> fst h \<Longrightarrow>
   \<forall>h\<in>set (foldl (\<lambda>headings (line_num, line).
              (case re_match heading_pattern line of
                 Some heading_match \<Rightarrow>
                   headings @ [(length (group heading_match 1),
                                strip (group heading_match 2), line_num)]
               | None \<Rightarrow> headings)) acc xs). 1 \<le> fst h"
proof (induction xs arbitrary: acc)
  case Nil
  then show ?case by simp
next
  case (Cons x xs)
  obtain n line where x: "x = (n, line)" by (cases x)
  show ?case
  proof (cases "re_match heading_pattern line")
    case None
    with Cons x show ?thesis by simp
  next
    case (Some m)
    from heading_level [OF Some] have "1 \<le> length (group m 1)" by simp
    with Cons.prems have
      "\<forall>h\<in>set (acc @ [(length (group m 1), strip (group m 2), n)]). 1 \<le> fst h" by simp
    from Cons.IH [OF this] show ?thesis using x Some by simp
  qed
qed

lemma find_headings_levels: "h \<in> set (find_headings lines) \<Longrightarrow> 1 \<le> fst h"
  using find_headings_levels_aux [of "[]" "enumerate 1 lines"]
  by (simp add: find_headings_def)

lemma heading_fold_issues:
  "issues (fst (foldl (heading_step fp) (v, pl) hs)) =
     issues v @ map (\<lambda>(q, h). heading_jump fp q h)
                  (filter (\<lambda>(q, h). q + 1 < fst h \<and> 0 < q) (zip (pl # map fst hs) hs))"
proof (induction hs arbitrary: v pl)
  case Nil
  show ?case by simp
next
  case (Cons h hs)
  obtain level ttl line_num where h: "h = (level, ttl, line_num)" by (cases h)
  have st: "heading_step fp (v, pl) h =
              (if pl + 1 < level \<and> 0 < pl then add_issue (heading_jump fp pl h) v else v, level)"
    by (simp add: h heading_step_def heading_jump_def)
  have "issues (fst (foldl (heading_step fp) (v, pl) (h # hs))) =
        issues (if pl + 1 < level \<and> 0 < pl then add_issue (heading_jump fp pl h) v else v) @
        map (\<lambda>(q, h). heading_jump fp q h)
          (filter (\<lambda>(q, h). q + 1 < fst h \<and> 0 < q) (zip (level # map fst hs) hs))"
    by (simp only: foldl_Cons st Cons.IH)
  then show ?case by (simp add: h)
qed

lemma heading_pairs:
  assumes "\<forall>h\<in>set hs. 1 \<le> fst h"
  shows "map (\<lambda>(q, h). heading_jump fp q h)
           (filter (\<lambda>(q, h). q + 1 < fst h \<and> 0 < q) (zip (0 # map fst hs) hs)) =
         map (\<lambda>(p, h). heading_jump fp (fst p) h)
           (filter (\<lambda>(p, h). fst p + 1 < fst h) (zip hs (tl hs)))"
proof (cases hs)
  case Nil
  then show ?thesis by simp
next
  case (Cons a as)
  let ?g = "\<lambda>(p, h). (fst p, h)"
  let ?Z = "zip (a # as) as"
  have pos: "\<And>x. x \<in> set ?Z \<Longrightarrow> 0 < fst (fst x)"
  proof -
    fix x assume x: "x \<in> set ?Z"
    obtain p h where ph: "x = (p, h)" by (cases x)
    with x have "(p, h) \<in> set ?Z" by simp
    from set_zip_leftD [OF this] have "fst x \<in> set (a # as)" using ph by simp
    with assms Cons have "1 \<le> fst (fst x)" by blast
    then show "0 < fst (fst x)" by simp
  qed
  have "map (\<lambda>(q, h). heading_jump fp q h)
           (filter (\<lambda>(q, h). q + 1 < fst h \<and> 0 < q) (zip (0 # map fst hs) hs)) =
        map (\<lambda>(q, h). heading_jump fp q h)
           (filter (\<lambda>(q, h). q + 1 < fst h \<and> 0 < q) (zip (map fst (a # as)) as))"
    by (simp add: Cons)
  also have "zip (map fst (a # as)) as = map ?g ?Z" by (rule zip_map1)
  also have "filter (\<lambda>(q, h). q + 1 < fst h \<and> 0 < q) (map ?g ?Z) =
             map ?g (filter ((\<lambda>(q, h). q + 1 < fst h \<and> 0 < q) \<circ> ?g) ?Z)"
    by (rule filter_map)
  also have "filter ((\<lambda>(q, h). q + 1 < fst h \<and> 0 < q) \<circ> ?g) ?Z =
             filter (\<lambda>(p, h). fst p + 1 < fst h) ?Z"
    by (rule filter_cong) (auto dest: pos)
  also have "map (\<lambda>(q, h). heading_jump fp q h) (map ?g (filter (\<lambda>(p, h). fst p + 1 < fst h) ?Z)) =
             map (\<lambda>(p, h). heading_jump fp (fst p) h) (filter (\<lambda>(p, h). fst p + 1 < fst h) ?Z)"
    by (simp add: split_beta)
  finally show ?thesis by (simp add: Cons)
qed

text \<open>
  Claim C10: the issues the heading rule appends are exactly those of the pairs of a
  heading and the heading that follows it, in their order, where the level of the
  second exceeds the level of the first by more than one.  The first heading of a
  document is the second of no pair, so it never yields an issue, whatever its level;
  every issue belongs to a heading that has a heading before it.
\<close>

theorem heading_jump_needs_previous_heading:
  "issues (check_headings fp content lines v) =
     issues v @ map (\<lambda>(p, h). heading_jump fp (fst p) h)
       (filter (\<lambda>(p, h). fst p + 1 < fst h)
          (zip (find_headings lines) (tl (find_headings lines))))"
proof (cases "find_headings lines = []")
  case True
  then show ?thesis by (simp add: check_headings_def)
next
  case False
  have "\<forall>h\<in>set (find_headings lines). 1 \<le> fst h"
    using find_headings_levels by blast
  from heading_pairs [OF this, of fp] False show ?thesis
    by (simp add: check_headings_def heading_fold_issues)
qed

text \<open>
  The theorem at a document whose first heading is \<open>### Title\<close>: no issue for it,
  and one issue for the later jump from level 4 to level 6.
\<close>

theorem heading_jump_needs_previous_heading_example:
  "find_headings [''### Title'', ''text'', ''#### Sub'', ''###### Deep''] =
     [(3, ''Title'', 1), (4, ''Sub'', 3), (6, ''Deep'', 4)] \<and>
   issues (check_headings ''a.md'' [] [''### Title'', ''text'', ''#### Sub'', ''###### Deep'']
             (ContentValidator_init ''content'')) =
     [heading_jump ''a.md'' 4 (6, ''Deep'', 4)] \<and>
   issues (check_headings ''a.md'' [] [''### Title'', ''text''] (ContentValidator_init ''content'')) = []"
proof -
  have a: "find_headings [''### Title'', ''text'', ''#### Sub'', ''###### Deep''] =
     [(3, ''Title'', 1), (4, ''Sub'', 3), (6, ''Deep'', 4)]" by code_simp
  have b: "find_headings [''### Title'', ''text''] = [(3, ''Title'', 1)]" by code_simp
  show ?thesis
    using heading_jump_needs_previous_heading [of "''a.md''" "[]"
        "[''### Title'', ''text'', ''#### Sub'', ''###### Deep'']" "ContentValidator_init ''content''"]
      heading_jump_needs_previous_heading [of "''a.md''" "[]"
        "[''### Title'', ''text'']" "ContentValidator_init ''content''"]
    by (simp add: a b ContentValidator_init_def)
qed

end
